theory Spec2Isabelle
  imports
    Main
    "HOL-Library.Sublist"
    "HOL-Library.Char_ord"
    "HOL-Library.List_Lexorder"
    "HOL-Library.Product_Lexorder"
begin

section \<open>Text primitives shared by the three scripts\<close>

text \<open>
  A Python \<open>str\<close> is modelled as a \<open>string\<close> whose characters are code points below 256.
  The order on strings is the lexicographic order on code points, which is the order
  Python's \<open>sorted\<close> uses to compare \<open>str\<close> values and tuples of them.
\<close>

text \<open>\<open>s.split(",")\<close>: always at least one field; an empty string gives one empty field.\<close>

fun split_on :: "char \<Rightarrow> string \<Rightarrow> string list" where
  "split_on sep [] = [[]]"
| "split_on sep (c # cs) =
     (if c = sep then [] # split_on sep cs
      else (case split_on sep cs of [] \<Rightarrow> [[c]] | w # ws \<Rightarrow> (c # w) # ws))"

text \<open>\<open>sep.join(fields)\<close>.\<close>

fun join_with :: "string \<Rightarrow> string list \<Rightarrow> string" where
  "join_with sep [] = []"
| "join_with sep [x] = x"
| "join_with sep (x # y # ys) = x @ sep @ join_with sep (y # ys)"

text \<open>\<open>str.isspace\<close> on one character, for the code points below 256.\<close>

definition is_space :: "char \<Rightarrow> bool" where
  "is_space c =
     (let n = (of_char c :: nat)
      in (9 \<le> n \<and> n \<le> 13) \<or> (28 \<le> n \<and> n \<le> 32) \<or> n = 133 \<or> n = 160)"

text \<open>\<open>s.strip()\<close>: leading and trailing white space removed.\<close>

definition strip :: "string \<Rightarrow> string" where
  "strip s = rev (dropWhile is_space (rev (dropWhile is_space s)))"

text \<open>The line boundaries of \<open>str.splitlines\<close> other than the pair CR LF.\<close>

definition is_linebreak :: "char \<Rightarrow> bool" where
  "is_linebreak c =
     (let n = (of_char c :: nat)
      in (10 \<le> n \<and> n \<le> 13) \<or> (28 \<le> n \<and> n \<le> 30) \<or> n = 133)"

text \<open>
  \<open>s.splitlines()\<close>, with the line being read kept reversed in \<open>cur\<close>: CR LF is one
  boundary, and no empty last line is produced after a final boundary.
\<close>

fun splitlines_from :: "string \<Rightarrow> string \<Rightarrow> string list" where
  "splitlines_from cur [] = (if cur = [] then [] else [rev cur])"
| "splitlines_from cur [c] =
     (if is_linebreak c then [rev cur] else [rev (c # cur)])"
| "splitlines_from cur (c # d # cs) =
     (if c = CHR 0x0D \<and> d = CHR 0x0A then rev cur # splitlines_from [] cs
      else if is_linebreak c then rev cur # splitlines_from [] (d # cs)
      else splitlines_from (c # cur) (d # cs))"

definition splitlines :: "string \<Rightarrow> string list" where
  "splitlines s = splitlines_from [] s"

definition startswith :: "string \<Rightarrow> string \<Rightarrow> bool" where
  "startswith s p = prefix p s"

text \<open>
  \<open>parse_rules\<close> of \<open>sync_rules.py\<close> and \<open>check_domains.py\<close>, on the text of the file:
  the stripped lines that are neither empty nor comments, in file order.
\<close>

fun rule_lines :: "string list \<Rightarrow> string list" where
  "rule_lines [] = []"
| "rule_lines (raw # raws) =
     (let line = strip raw
      in if line = [] \<or> startswith line ''#'' then rule_lines raws
         else line # rule_lines raws)"

definition parse_rules :: "string \<Rightarrow> string list" where
  "parse_rules text = rule_lines (splitlines text)"

section \<open>The liveness checker (\<open>check_domains.py\<close>)\<close>

definition RESOLVERS :: "string list" where
  "RESOLVERS = [''1.1.1.1'', ''8.8.8.8'']"

definition THRESHOLD :: int where
  "THRESHOLD = 3"

definition RULE_TYPES_CHECK :: "string set" where
  "RULE_TYPES_CHECK = {''DOMAIN'', ''DOMAIN-SUFFIX''}"

text \<open>The loop of \<open>iter_domains\<close>, then \<open>sorted(set(domains))\<close>.\<close>

fun collect_domains :: "string list \<Rightarrow> string list" where
  "collect_domains [] = []"
| "collect_domains (rule # rules) =
     (let parts = split_on CHR '','' rule;
          rule_type = hd parts
      in if rule_type \<notin> RULE_TYPES_CHECK then collect_domains rules
         else if length parts < 2 then collect_domains rules
         else (parts ! 1) # collect_domains rules)"

definition iter_domains :: "string list \<Rightarrow> string list" where
  "iter_domains rules = sorted_list_of_set (set (collect_domains rules))"

subsection \<open>One domain: \<open>check_domain\<close>\<close>

datatype qtype = Query_A | Query_AAAA

text \<open>
  What one call \<open>resolver.resolve(domain, qtype, raise_on_no_answer=False)\<close> does: it
  returns an answer with or without a record set, or raises. The exceptions are the ones
  the handlers of \<open>check_domain\<close> tell apart; \<open>Raise_DNSException\<close> is any other
  exception below \<open>dns.exception.DNSException\<close>.
\<close>

datatype outcome =
    Answer_rrset
  | Answer_no_rrset
  | Raise_NoAnswer
  | Raise_NXDOMAIN
  | Raise_NoNameservers
  | Raise_Timeout
  | Raise_DNSException

text \<open>
  The inner \<open>for qtype in ("A", "AAAA")\<close> with its \<open>try\<close>: \<open>NoAnswer\<close> and \<open>NXDOMAIN\<close>
  are handled inside the loop, which goes on; any other exception leaves the loop, so the
  remaining record kinds of that resolver are not queried. The result is the flag \<open>ok\<close>,
  the outcomes of the queries made so far, and whether an exception left the loop.
\<close>

fun query_loop ::
  "(qtype \<Rightarrow> outcome) \<Rightarrow> qtype list \<Rightarrow> bool \<Rightarrow> outcome list \<Rightarrow> bool \<times> outcome list \<times> bool" where
  "query_loop resolve [] ok made = (ok, made, False)"
| "query_loop resolve (q # qs) ok made =
     (case resolve q of
        Answer_rrset \<Rightarrow> query_loop resolve qs True (made @ [Answer_rrset])
      | Answer_no_rrset \<Rightarrow> query_loop resolve qs True (made @ [Answer_no_rrset])
      | Raise_NoAnswer \<Rightarrow> query_loop resolve qs True (made @ [Raise_NoAnswer])
      | Raise_NXDOMAIN \<Rightarrow> query_loop resolve qs ok (made @ [Raise_NXDOMAIN])
      | Raise_NoNameservers \<Rightarrow> (ok, made @ [Raise_NoNameservers], True)
      | Raise_Timeout \<Rightarrow> (ok, made @ [Raise_Timeout], True)
      | Raise_DNSException \<Rightarrow> (ok, made @ [Raise_DNSException], True))"

text \<open>The outer \<open>for resolver_ip in RESOLVERS\<close>: an exception that left the inner loop sets \<open>unknown\<close>.\<close>

fun resolver_loop ::
  "(string \<Rightarrow> qtype \<Rightarrow> outcome) \<Rightarrow> string list \<Rightarrow> bool \<Rightarrow> bool \<Rightarrow> outcome list
     \<Rightarrow> bool \<times> bool \<times> outcome list" where
  "resolver_loop dns [] ok unknown made = (ok, unknown, made)"
| "resolver_loop dns (resolver_ip # rest) ok unknown made =
     (case query_loop (dns resolver_ip) [Query_A, Query_AAAA] ok made of
        (ok', made', left) \<Rightarrow> resolver_loop dns rest ok' (unknown \<or> left) made')"

text \<open>
  \<open>dns domain resolver_ip qtype\<close> is the outcome of the query for \<open>domain\<close> sent to
  \<open>resolver_ip\<close>. \<open>check_domain\<close> is the status returned; \<open>attempts\<close> are the outcomes of
  the queries the run made, in order.
\<close>

definition check_domain :: "(string \<Rightarrow> string \<Rightarrow> qtype \<Rightarrow> outcome) \<Rightarrow> string \<Rightarrow> string" where
  "check_domain dns domain =
     (case resolver_loop (dns domain) RESOLVERS False False [] of
        (ok, unknown, made) \<Rightarrow>
          if ok then ''OK'' else if unknown then ''UNKNOWN'' else ''NXDOMAIN'')"

definition attempts :: "(string \<Rightarrow> string \<Rightarrow> qtype \<Rightarrow> outcome) \<Rightarrow> string \<Rightarrow> outcome list" where
  "attempts dns domain =
     (case resolver_loop (dns domain) RESOLVERS False False [] of
        (ok, unknown, made) \<Rightarrow> made)"

text \<open>The four classes of outcome the specification names.\<close>

fun answered :: "outcome \<Rightarrow> bool" where
  "answered Answer_rrset = True"
| "answered Answer_no_rrset = True"
| "answered Raise_NoAnswer = True"
| "answered _ = False"

fun resolution_failed :: "outcome \<Rightarrow> bool" where
  "resolution_failed Raise_NoNameservers = True"
| "resolution_failed Raise_Timeout = True"
| "resolution_failed Raise_DNSException = True"
| "resolution_failed _ = False"

subsection \<open>The staleness state: the loop of \<open>main\<close>\<close>

text \<open>
  One entry of \<open>nxdomain_state.json\<close>. The file is the one this script wrote at the end
  of the previous run, so every entry read back has the three fields.
\<close>

record liveness_record =
  count :: int
  last_status :: string
  last_checked :: string

record loop_state =
  updated_state :: "string \<rightharpoonup> liveness_record"
  counters :: "string \<Rightarrow> nat"
  candidates :: "string list"
  unknowns :: "string list"

text \<open>
  The body of \<open>for domain in domains\<close>, in the order of its statements. \<open>state\<close> is
  the map read from the state file (empty when the file is missing or empty), \<open>results\<close>
  the statuses collected from the workers, \<open>utcnow domain\<close> the clock reading
  \<open>datetime.utcnow().isoformat()\<close> taken for that domain.
\<close>

definition run_status :: "(string \<rightharpoonup> string) \<Rightarrow> string \<Rightarrow> string" where
  "run_status results domain = (case results domain of None \<Rightarrow> ''UNKNOWN'' | Some st \<Rightarrow> st)"

definition prev_count :: "(string \<rightharpoonup> liveness_record) \<Rightarrow> string \<Rightarrow> int" where
  "prev_count state domain = (case state domain of None \<Rightarrow> 0 | Some prev \<Rightarrow> count prev)"

definition next_count :: "string \<Rightarrow> int \<Rightarrow> int" where
  "next_count status c =
     (if status = ''NXDOMAIN'' then c + 1
      else if status = ''OK'' then 0
      else c)"

definition loop_body ::
  "(string \<rightharpoonup> liveness_record) \<Rightarrow> (string \<rightharpoonup> string) \<Rightarrow> (string \<Rightarrow> string)
     \<Rightarrow> string \<Rightarrow> loop_state \<Rightarrow> loop_state" where
  "loop_body state results utcnow domain s =
     (let status = run_status results domain;
          cnt = next_count status (prev_count state domain)
      in \<lparr> updated_state = (updated_state s)(domain \<mapsto>
              \<lparr> count = cnt, last_status = status, last_checked = utcnow domain @ ''Z'' \<rparr>),
           counters = (counters s)(status := counters s status + 1),
           candidates = (if cnt \<ge> THRESHOLD then candidates s @ [domain] else candidates s),
           unknowns = (if status \<noteq> ''NXDOMAIN'' \<and> status \<noteq> ''OK''
                       then unknowns s @ [domain] else unknowns s) \<rparr>)"

definition loop_init :: loop_state where
  "loop_init = \<lparr> updated_state = Map.empty, counters = (\<lambda>_. 0), candidates = [], unknowns = [] \<rparr>"

text \<open>
  What \<open>main\<close> of \<open>check_domains.py\<close> writes: the state file holds \<open>updated_state\<close>, the
  candidate file \<open>sorted(set(candidates))\<close>, and the report also lists
  \<open>sorted(set(unknowns))\<close> and the three counters.
\<close>

record check_output =
  state_written :: "string \<rightharpoonup> liveness_record"
  candidates_written :: "string list"
  unknowns_written :: "string list"
  counters_written :: "string \<Rightarrow> nat"

definition check_main ::
  "string \<Rightarrow> (string \<rightharpoonup> liveness_record) \<Rightarrow> (string \<rightharpoonup> string) \<Rightarrow> (string \<Rightarrow> string)
     \<Rightarrow> check_output" where
  "check_main rules_text state results utcnow =
     (let domains = iter_domains (parse_rules rules_text);
          s = fold (loop_body state results utcnow) domains loop_init
      in \<lparr> state_written = updated_state s,
           candidates_written = sorted_list_of_set (set (candidates s)),
           unknowns_written = sorted_list_of_set (set (unknowns s)),
           counters_written = counters s \<rparr>)"

section \<open>Canonical ordering (\<open>sort_key\<close> of \<open>sync_rules.py\<close> and \<open>build_clients.py\<close>)\<close>

definition RULE_ORDER :: "string \<rightharpoonup> int" where
  "RULE_ORDER = map_of
     [(''DOMAIN'', 0), (''DOMAIN-SUFFIX'', 1), (''DOMAIN-KEYWORD'', 2), (''DOMAIN-WILDCARD'', 3),
      (''DOMAIN-REGEX'', 4), (''IP-CIDR'', 5), (''IP-CIDR6'', 6), (''IP-ASN'', 7),
      (''USER-AGENT'', 8)]"

text \<open>
  \<open>s.partition(sep)\<close> for a one-character separator: the part before the first
  separator, the separator, the part after it; without a separator, the string and two
  empty strings.
\<close>

definition partition_on :: "char \<Rightarrow> string \<Rightarrow> string \<times> string \<times> string" where
  "partition_on sep s =
     (let rest = dropWhile (\<lambda>c. c \<noteq> sep) s
      in if rest = [] then (s, [], [])
         else (takeWhile (\<lambda>c. c \<noteq> sep) s, [sep], tl rest))"

text \<open>
  \<open>sort_key\<close>; the two scripts define it with the same text. (The name \<open>sort_key\<close> is
  the library's stable insertion sort by a key, which models \<open>sorted(xs, key=...)\<close>.)
\<close>

definition sort_key_rule :: "string \<Rightarrow> int \<times> string \<times> string" where
  "sort_key_rule rule =
     (case partition_on CHR '','' rule of
        (rule_type, _, rest) \<Rightarrow>
          ((case RULE_ORDER rule_type of None \<Rightarrow> 99 | Some n \<Rightarrow> n), rule_type, rest))"

text \<open>\<open>sorted(rules, key=sort_key)\<close>: Python's sort is stable, as \<open>sort_key\<close> is.\<close>

definition sorted_rules :: "string list \<Rightarrow> string list" where
  "sorted_rules rules = sort_key sort_key_rule rules"

section \<open>Header builders\<close>

text \<open>A \<open>Counter\<close>: a dictionary from keys to integers, in insertion order, keys distinct.\<close>

type_synonym counter = "(string \<times> int) list"

text \<open>\<open>counts[key] += 1\<close>.\<close>

fun counter_incr :: "string \<Rightarrow> counter \<Rightarrow> counter" where
  "counter_incr key [] = [(key, 1)]"
| "counter_incr key ((k, n) # rest) =
     (if k = key then (k, n + 1) # rest else (k, n) # counter_incr key rest)"

text \<open>\<open>Counter(iterable)\<close>.\<close>

definition Counter :: "string list \<Rightarrow> counter" where
  "Counter xs = fold counter_incr xs []"

text \<open>\<open>rule.split(",", 1)[0]\<close>.\<close>

definition first_field :: "string \<Rightarrow> string" where
  "first_field rule = (case partition_on CHR '','' rule of (h, _, _) \<Rightarrow> h)"

text \<open>\<open>str(n)\<close> of an integer, as an f-string formats it.\<close>

definition digit_char :: "nat \<Rightarrow> char" where
  "digit_char d = char_of (48 + d)"

fun digits :: "nat \<Rightarrow> string" where
  "digits n = (if n < 10 then [digit_char n] else digits (n div 10) @ [digit_char (n mod 10)])"

definition str_int :: "int \<Rightarrow> string" where
  "str_int i = (if i < 0 then CHR ''-'' # digits (nat (- i)) else digits (nat i))"

definition count_line :: "string \<Rightarrow> int \<Rightarrow> string" where
  "count_line key n = ''# '' @ key @ '': '' @ str_int n"

definition total_line :: "int \<Rightarrow> string" where
  "total_line n = ''# TOTAL: '' @ str_int n"

text \<open>
  The loop \<open>for key in [...]: if counts.get(key): header.append(...)\<close>, which the three
  header builders share but for the list of keys.
\<close>

fun count_lines :: "string list \<Rightarrow> counter \<Rightarrow> string list" where
  "count_lines [] counts = []"
| "count_lines (key # keys) counts =
     (case map_of counts key of
        None \<Rightarrow> count_lines keys counts
      | Some n \<Rightarrow> if n \<noteq> 0 then count_line key n # count_lines keys counts
                  else count_lines keys counts)"

definition RULE_KEYS :: "string list" where
  "RULE_KEYS = [''DOMAIN'', ''DOMAIN-SUFFIX'', ''DOMAIN-KEYWORD'', ''DOMAIN-WILDCARD'',
     ''DOMAIN-REGEX'', ''IP-CIDR'', ''IP-CIDR6'', ''IP-ASN'', ''USER-AGENT'']"

definition QX_KEYS :: "string list" where
  "QX_KEYS = [''HOST'', ''HOST-SUFFIX'', ''HOST-KEYWORD'', ''HOST-WILDCARD'',
     ''HOST-REGEX'', ''IP-CIDR'', ''IP-CIDR6'', ''IP-ASN'', ''USER-AGENT'']"

text \<open>\<open>build_header\<close> of \<open>sync_rules.py\<close>.\<close>

definition sync_build_header :: "string \<Rightarrow> string \<Rightarrow> counter \<Rightarrow> string list" where
  "sync_build_header name updated counts =
     [''# NAME: '' @ name,
      ''# AUTHOR: aggregated by request'',
      ''# REPO: git@github.com:viewer12/OverseasAI.list.git'',
      ''# SOURCE: https://github.com/blackmatrix7/ios_rule_script (rule/Surge)'',
      ''# INCLUDED-CORE: OpenAI, Claude, Anthropic, Gemini, BardAI, Copilot, Civitai, Stripe, PayPal'',
      ''# INCLUDED-UPSTREAM-EXTRA: see README'',
      ''# INCLUDED-CUSTOM: see README'',
      ''# UPDATED: '' @ updated]
     @ count_lines RULE_KEYS counts
     @ [total_line (sum_list (map snd counts))]"

text \<open>\<open>build_header\<close> and \<open>build_qx_header\<close> of \<open>build_clients.py\<close>.\<close>

definition build_header :: "string \<Rightarrow> string list \<Rightarrow> counter \<Rightarrow> string list" where
  "build_header name base_meta counts =
     [''# NAME: '' @ name] @ base_meta
     @ count_lines RULE_KEYS counts
     @ [total_line (sum_list (map snd counts))]"

definition build_qx_header :: "string \<Rightarrow> string list \<Rightarrow> counter \<Rightarrow> string list" where
  "build_qx_header name base_meta counts =
     [''# NAME: '' @ name] @ base_meta
     @ count_lines QX_KEYS counts
     @ [total_line (sum_list (map snd counts))]"

text \<open>
  The count lines a header holds, as pairs of type and number: the keys of the list
  with a non-zero count, in the order of the list.
\<close>

fun emitted_counts :: "string list \<Rightarrow> counter \<Rightarrow> (string \<times> int) list" where
  "emitted_counts [] counts = []"
| "emitted_counts (key # keys) counts =
     (case map_of counts key of
        None \<Rightarrow> emitted_counts keys counts
      | Some n \<Rightarrow> if n \<noteq> 0 then (key, n) # emitted_counts keys counts
                  else emitted_counts keys counts)"

text \<open>\<open>counts[key]\<close> of a \<open>Counter\<close>: the number stored, and 0 for a key it does not hold.\<close>

definition counter_value :: "counter \<Rightarrow> string \<Rightarrow> int" where
  "counter_value counts k = (case map_of counts k of None \<Rightarrow> 0 | Some n \<Rightarrow> n)"

section \<open>Files\<close>

text \<open>
  A path is the list of its components. The file system holds the regular files and
  their text, as an association list read with \<open>map_of\<close>. The directories that exist
  are the ancestors of the files together with a set \<open>dirs\<close> of further directories,
  which \<open>mkdir(parents=True, exist_ok=True)\<close> extends. No path is both a file and a
  directory.
\<close>

type_synonym path = "string list"
type_synonym filesystem = "(path \<times> string) list"

datatype error = SystemExit string | FileNotFoundError path

definition path_exists :: "filesystem \<Rightarrow> path \<Rightarrow> bool" where
  "path_exists fs p = (map_of fs p \<noteq> None)"

definition parent :: "path \<Rightarrow> path" where
  "parent p = butlast p"

definition dir_exists :: "path set \<Rightarrow> filesystem \<Rightarrow> path \<Rightarrow> bool" where
  "dir_exists dirs fs d = (d \<in> dirs \<or> list_ex (\<lambda>(p, t). prefix d p \<and> p \<noteq> d) fs)"

text \<open>\<open>d.mkdir(parents=True, exist_ok=True)\<close>: \<open>d\<close> and the directories above it exist afterwards.\<close>

definition mkdir_parents :: "path \<Rightarrow> path set \<Rightarrow> path set" where
  "mkdir_parents d dirs = dirs \<union> set (prefixes d)"

text \<open>
  \<open>p.write_text(text)\<close>: raises \<open>FileNotFoundError\<close> when the directory of \<open>p\<close> does not
  exist; otherwise the file holds \<open>text\<close> (the new binding is put in front, where
  \<open>map_of\<close> finds it first).
\<close>

definition write_text :: "path set \<Rightarrow> path \<Rightarrow> string \<Rightarrow> filesystem \<Rightarrow> error + filesystem" where
  "write_text dirs p text fs =
     (if dir_exists dirs fs (parent p) then Inr ((p, text) # fs) else Inl (FileNotFoundError p))"

text \<open>
  Writes made one after the other: the first one that raises ends the run, and the
  files written before it stay written.
\<close>

fun write_all :: "path set \<Rightarrow> (path \<times> string) list \<Rightarrow> filesystem \<Rightarrow> (error + unit) \<times> filesystem" where
  "write_all dirs [] fs = (Inr (), fs)"
| "write_all dirs ((p, text) # ws) fs =
     (case write_text dirs p text fs of
        Inl e \<Rightarrow> (Inl e, fs)
      | Inr fs' \<Rightarrow> write_all dirs ws fs')"

text \<open>The same, with the directory of each file made just before the file is written.\<close>

fun mkdir_write_all :: "path set \<Rightarrow> (path \<times> string) list \<Rightarrow> filesystem \<Rightarrow> (error + unit) \<times> filesystem" where
  "mkdir_write_all dirs [] fs = (Inr (), fs)"
| "mkdir_write_all dirs ((p, text) # ws) fs =
     (let dirs' = mkdir_parents (parent p) dirs
      in case write_text dirs' p text fs of
           Inl e \<Rightarrow> (Inl e, fs)
         | Inr fs' \<Rightarrow> mkdir_write_all dirs' ws fs')"

definition path_str :: "path \<Rightarrow> string" where
  "path_str p = join_with ''/'' p"

text \<open>\<open>base.rglob("*.list")\<close>: the files below \<open>base\<close>, at any depth, named \<open>*.list\<close>.\<close>

definition rglob_list :: "filesystem \<Rightarrow> path \<Rightarrow> path list" where
  "rglob_list fs base =
     filter (\<lambda>p. prefix base p \<and> p \<noteq> base \<and> suffix ''.list'' (last p)) (remdups (map fst fs))"

section \<open>The corpus merger (\<open>main\<close> of \<open>sync_rules.py\<close>)\<close>

definition CORE_SOURCES :: "string list" where
  "CORE_SOURCES = [''OpenAI'', ''Claude'', ''Anthropic'', ''Gemini'', ''BardAI'', ''Copilot'',
     ''Civitai'', ''Stripe'', ''PayPal'']"

definition rules_dir :: "path \<Rightarrow> path" where
  "rules_dir repo_root = repo_root @ [''rule'', ''Surge'', ''OverseasAI'']"

definition custom_path :: "path \<Rightarrow> path" where
  "custom_path repo_root = rules_dir repo_root @ [''OverseasAI_Custom.list'']"

definition upstream_extra_path :: "path \<Rightarrow> path" where
  "upstream_extra_path repo_root = repo_root @ [''data'', ''upstream_extra_rules.txt'']"

definition upstream_missing_path :: "path \<Rightarrow> path" where
  "upstream_missing_path repo_root = repo_root @ [''reports'', ''upstream_missing.txt'']"

definition main_path :: "path \<Rightarrow> path" where
  "main_path repo_root = rules_dir repo_root @ [''OverseasAI.list'']"

definition resolve_path :: "path \<Rightarrow> path" where
  "resolve_path repo_root = rules_dir repo_root @ [''OverseasAI_Resolve.list'']"

definition core_source_path :: "path \<Rightarrow> string \<Rightarrow> path" where
  "core_source_path upstream_root name =
     upstream_root @ [''rule'', ''Surge'', name, name @ ''.list'']"

text \<open>Lines 94 to 97: every rule line of every list file below \<open>rule/Surge\<close> of the upstream.\<close>

definition load_upstream_lines :: "filesystem \<Rightarrow> path \<Rightarrow> string set" where
  "load_upstream_lines fs upstream_root =
     fold (\<lambda>p acc.
             acc \<union> set (parse_rules (case map_of fs p of None \<Rightarrow> [] | Some text \<Rightarrow> text)))
          (rglob_list fs (upstream_root @ [''rule'', ''Surge''])) {}"

text \<open>Lines 100 to 105: the core sources in order; the first missing one ends the run.\<close>

fun load_core :: "filesystem \<Rightarrow> path \<Rightarrow> string list \<Rightarrow> string set \<Rightarrow> error + string set" where
  "load_core fs upstream_root [] acc = Inr acc"
| "load_core fs upstream_root (name # names) acc =
     (let path = core_source_path upstream_root name
      in case map_of fs path of
           None \<Rightarrow> Inl (SystemExit (''Missing upstream list: '' @ path_str path))
         | Some text \<Rightarrow> load_core fs upstream_root names (acc \<union> set (parse_rules text)))"

text \<open>
  Lines 111 to 118: the lines of the extra file, checked against the upstream lines.
  The pair holds \<open>upstream_extra_rules\<close> and \<open>missing_extra\<close>.
\<close>

fun extra_loop :: "string set \<Rightarrow> string list \<Rightarrow> string set \<times> string list \<Rightarrow> string set \<times> string list" where
  "extra_loop known [] acc = acc"
| "extra_loop known (raw # raws) (extra, missing) =
     (let line = strip raw
      in if line = [] \<or> startswith line ''#''
         then extra_loop known raws (extra, missing)
         else if line \<in> known
         then extra_loop known raws (insert line extra, missing)
         else extra_loop known raws (extra, missing @ [line]))"

text \<open>
  \<open>s.replace(old, new)\<close>: the occurrences of \<open>old\<close> are taken from the left and do not
  overlap. \<open>replace_from\<close> is the scan for a non-empty \<open>old\<close>.
\<close>

function replace_from :: "string \<Rightarrow> string \<Rightarrow> string \<Rightarrow> string" where
  "replace_from [] old new = []"
| "replace_from (c # cs) old new =
     (if old \<noteq> [] \<and> prefix old (c # cs)
      then new @ replace_from (drop (length old) (c # cs)) old new
      else c # replace_from cs old new)"
  by pat_completeness auto
termination
  by (relation "measure (\<lambda>(s, old, new). length s)") auto

definition str_replace :: "string \<Rightarrow> string \<Rightarrow> string \<Rightarrow> string" where
  "str_replace s old new =
     (if old = [] then new @ concat (map (\<lambda>c. c # new) s) else replace_from s old new)"

text \<open>
  The values of the local variables of \<open>main\<close> that the outputs are made of.
  A Python \<open>set\<close> is a set; the order in which \<open>sorted\<close> reads its elements is not
  fixed by the program, and is the parameter \<open>iteration\<close> of the run.
\<close>

record sync_locals =
  upstream_lines :: "string set"
  core_rules :: "string set"
  upstream_extra_rules :: "string set"
  missing_extra :: "string list"
  custom_rules :: "string set"
  merged_rules :: "string set"
  rules_sorted :: "string list"
  resolve_rules :: "string list"

text \<open>Line 139: the set comprehension over \<open>rules_sorted\<close>.\<close>

definition resolve_set :: "string list \<Rightarrow> string set" where
  "resolve_set rules = (\<lambda>r. str_replace r '',no-resolve'' []) ` set rules"

text \<open>Lines 93 to 139, without the writes: what is read, merged and sorted.\<close>

definition sync_compute ::
  "(string set \<Rightarrow> string list) \<Rightarrow> path \<Rightarrow> path \<Rightarrow> filesystem \<Rightarrow> error + sync_locals" where
  "sync_compute iteration repo_root upstream_root fs =
     (let ul = load_upstream_lines fs upstream_root
      in case load_core fs upstream_root CORE_SOURCES {} of
           Inl e \<Rightarrow> Inl e
         | Inr core \<Rightarrow>
             (let (extra, missing) =
                    (case map_of fs (upstream_extra_path repo_root) of
                       None \<Rightarrow> ({}, [])
                     | Some text \<Rightarrow> extra_loop ul (splitlines text) ({}, []));
                  custom =
                    (case map_of fs (custom_path repo_root) of
                       None \<Rightarrow> {}
                     | Some text \<Rightarrow> set (parse_rules text));
                  merged = core \<union> extra \<union> custom;
                  sorted_merged = sorted_rules (iteration merged)
              in Inr \<lparr> upstream_lines = ul, core_rules = core, upstream_extra_rules = extra,
                       missing_extra = missing, custom_rules = custom, merged_rules = merged,
                       rules_sorted = sorted_merged,
                       resolve_rules = sorted_rules (iteration (resolve_set sorted_merged)) \<rparr>))"

definition artifact_text :: "string list \<Rightarrow> string list \<Rightarrow> string" where
  "artifact_text header rules =
     join_with ''\<newline>'' header @ ''\<newline>'' @ join_with ''\<newline>'' rules @ ''\<newline>''"

text \<open>
  \<open>main\<close>: the files after the run, and the error that ended it, if any.
  \<open>refresh_custom\<close> is the command-line flag, \<open>updated\<close> the formatted time of the run,
  \<open>dirs\<close> the directories that exist when it starts. Line 87 makes \<open>rules_dir\<close>, the
  only directory the script makes; the four writes follow in the order of the source.
\<close>

definition sync_main ::
  "(string set \<Rightarrow> string list) \<Rightarrow> bool \<Rightarrow> string \<Rightarrow> path \<Rightarrow> path \<Rightarrow> path set \<Rightarrow> filesystem
     \<Rightarrow> (error + unit) \<times> filesystem" where
  "sync_main iteration refresh_custom updated repo_root upstream_root dirs fs =
     (let dirs1 = mkdir_parents (rules_dir repo_root) dirs
      in case sync_compute iteration repo_root upstream_root fs of
           Inl e \<Rightarrow> (Inl e, fs)
         | Inr l \<Rightarrow>
             (let counts = Counter (map first_field (rules_sorted l));
                  header = sync_build_header ''OverseasAI'' updated counts;
                  resolve_counts = Counter (map first_field (resolve_rules l));
                  resolve_header = sync_build_header ''OverseasAI_Resolve'' updated resolve_counts
              in write_all dirs1
                   ([(main_path repo_root, artifact_text header (rules_sorted l)),
                     (resolve_path repo_root, artifact_text resolve_header (resolve_rules l))]
                    @ (if refresh_custom
                       then [(custom_path repo_root,
                              join_with ''\<newline>''
                                (sorted_rules (iteration
                                   {r \<in> merged_rules l. r \<notin> core_rules l \<and> r \<notin> upstream_extra_rules l}))
                              @ ''\<newline>'')]
                       else [])
                    @ [(upstream_missing_path repo_root,
                        if missing_extra l \<noteq> []
                        then join_with ''\<newline>'' (sorted_rules (missing_extra l)) @ ''\<newline>''
                        else [])])
                   fs))"

text \<open>
  The resolve view in the words of the specification: the modifier \<open>no-resolve\<close> is
  taken out of the modifiers of a record (the fields after the value); type and value
  stay as they are.
\<close>

definition spec_strip_no_resolve :: "string \<Rightarrow> string" where
  "spec_strip_no_resolve rule =
     (let parts = split_on CHR '','' rule
      in join_with '','' (take 2 parts @ filter (\<lambda>m. m \<noteq> ''no-resolve'') (drop 2 parts)))"

definition spec_resolve_set :: "string set \<Rightarrow> string set" where
  "spec_resolve_set merged = spec_strip_no_resolve ` merged"

section \<open>The client projections (\<open>main\<close> of \<open>build_clients.py\<close>)\<close>

text \<open>\<open>parse_rules\<close> of \<open>build_clients.py\<close>: comment lines are kept, as the header.\<close>

fun header_and_rules :: "string list \<Rightarrow> string list \<times> string list" where
  "header_and_rules [] = ([], [])"
| "header_and_rules (raw # raws) =
     (let line = strip raw;
          (header, rules) = header_and_rules raws
      in if line = [] then (header, rules)
         else if startswith line ''#'' then (line # header, rules)
         else (header, line # rules))"

definition clients_parse_rules :: "string \<Rightarrow> string list \<times> string list" where
  "clients_parse_rules text = header_and_rules (splitlines text)"

definition count_prefixes :: "string list" where
  "count_prefixes = [''# DOMAIN'', ''# IP-'', ''# USER-AGENT'', ''# TOTAL'']"

text \<open>Lines 93 to 98: the header lines kept as metadata.\<close>

definition meta_lines :: "string list \<Rightarrow> string list" where
  "meta_lines header =
     filter (\<lambda>line. \<not> startswith line ''# NAME:'' \<and> \<not> list_ex (startswith line) count_prefixes)
       header"

text \<open>Lines 122 to 133: the type of the remapped dialect.\<close>

definition qx_type_of :: "string \<Rightarrow> string" where
  "qx_type_of rule_type =
     (if rule_type = ''DOMAIN'' then ''HOST''
      else if rule_type = ''DOMAIN-SUFFIX'' then ''HOST-SUFFIX''
      else if rule_type = ''DOMAIN-KEYWORD'' then ''HOST-KEYWORD''
      else if rule_type = ''DOMAIN-WILDCARD'' then ''HOST-WILDCARD''
      else if rule_type = ''DOMAIN-REGEX'' then ''HOST-REGEX''
      else rule_type)"

text \<open>
  Lines 116 to 135, for one rule: the remapped type and the line. \<open>extra\<close> is computed
  as the source does and, as there, does not reach the line.
\<close>

definition qx_transform :: "string \<Rightarrow> string \<times> string" where
  "qx_transform rule =
     (let parts = split_on CHR '','' rule;
          rule_type = hd parts;
          val = (if length parts > 1 then parts ! 1 else []);
          extra = filter (\<lambda>x. x \<noteq> ''no-resolve'') (drop 2 parts);
          qx_type = qx_type_of rule_type
      in (qx_type, qx_type @ '','' @ val @ '',OverseasAI''))"

definition qx_line :: "string \<Rightarrow> string" where
  "qx_line rule = snd (qx_transform rule)"

text \<open>The loop of lines 115 to 137, with its two accumulators.\<close>

fun qx_loop :: "string list \<Rightarrow> string list \<times> counter \<Rightarrow> string list \<times> counter" where
  "qx_loop [] acc = acc"
| "qx_loop (rule # rules) (qx_rules, qx_counts) =
     (case qx_transform rule of
        (qx_type, line) \<Rightarrow> qx_loop rules (qx_rules @ [line], counter_incr qx_type qx_counts))"

definition client_path :: "path \<Rightarrow> string \<Rightarrow> path" where
  "client_path repo_root platform = repo_root @ [''rule'', platform, ''OverseasAI'', ''OverseasAI.list'']"

definition clients_main :: "path \<Rightarrow> path set \<Rightarrow> filesystem \<Rightarrow> (error + unit) \<times> filesystem" where
  "clients_main repo_root dirs fs =
     (case map_of fs (client_path repo_root ''Surge'') of
        None \<Rightarrow> (Inl (FileNotFoundError (client_path repo_root ''Surge'')), fs)
      | Some text \<Rightarrow>
          (let (header, rules) = clients_parse_rules text;
               meta = meta_lines header;
               sorted_list = sorted_rules rules;
               counts = Counter (map first_field sorted_list);
               surge_header = build_header ''OverseasAI'' meta counts;
               (qx_rules, qx_counts) = qx_loop sorted_list ([], []);
               qx_header = build_qx_header ''OverseasAI'' meta qx_counts
           in mkdir_write_all dirs
                (map (\<lambda>platform. (client_path repo_root platform,
                                   artifact_text surge_header sorted_list))
                   [''Clash'', ''Loon'', ''Shadowrocket'']
                 @ [(client_path repo_root ''QuantumultX'', artifact_text qx_header qx_rules),
                    (client_path repo_root ''Quantumult'', artifact_text qx_header qx_rules)])
                fs))"

section \<open>Inputs used as examples\<close>

definition dns_all_nxdomain :: "string \<Rightarrow> string \<Rightarrow> qtype \<Rightarrow> outcome" where
  "dns_all_nxdomain domain resolver_ip q = Raise_NXDOMAIN"

text \<open>A resolver behaviour: \<open>1.1.1.1\<close> times out, \<open>8.8.8.8\<close> says the name does not exist.\<close>

definition dns_first_timeout :: "string \<Rightarrow> string \<Rightarrow> qtype \<Rightarrow> outcome" where
  "dns_first_timeout domain resolver_ip q =
     (if resolver_ip = ''1.1.1.1'' then Raise_Timeout else Raise_NXDOMAIN)"

text \<open>A resolver behaviour: every \<open>A\<close> query times out, every \<open>AAAA\<close> query would be answered.\<close>

definition dns_timeout_then_answer :: "string \<Rightarrow> string \<Rightarrow> qtype \<Rightarrow> outcome" where
  "dns_timeout_then_answer domain resolver_ip q =
     (case q of Query_A \<Rightarrow> Raise_Timeout | Query_AAAA \<Rightarrow> Answer_rrset)"

definition fixed_clock :: "string \<Rightarrow> string" where
  "fixed_clock domain = ''2024-01-01T00:00:00''"

definition example_state :: "string \<rightharpoonup> liveness_record" where
  "example_state = [''gone.example'' \<mapsto>
      \<lparr> count = 2, last_status = ''NXDOMAIN'', last_checked = ''2023-12-31T00:00:00Z'' \<rparr>]"

definition example_results :: "string \<rightharpoonup> string" where
  "example_results = [''gone.example'' \<mapsto> ''NXDOMAIN'']"

text \<open>
  An upstream checkout with the nine core lists and one more list, a repository with an
  extra file of three lines and a custom list of two; and the same without \<open>Claude.list\<close>.
\<close>

definition example_upstream :: filesystem where
  "example_upstream =
     [([''upstream'', ''rule'', ''Surge'', ''OpenAI'', ''OpenAI.list''],
         ''# NAME: OpenAI\<newline>DOMAIN-SUFFIX,openai.com\<newline>IP-CIDR,1.2.3.0/24,no-resolve\<newline>''),
      ([''upstream'', ''rule'', ''Surge'', ''Anthropic'', ''Anthropic.list''],
         ''DOMAIN-SUFFIX,anthropic.com\<newline>''),
      ([''upstream'', ''rule'', ''Surge'', ''Gemini'', ''Gemini.list''], []),
      ([''upstream'', ''rule'', ''Surge'', ''BardAI'', ''BardAI.list''], []),
      ([''upstream'', ''rule'', ''Surge'', ''Copilot'', ''Copilot.list''], []),
      ([''upstream'', ''rule'', ''Surge'', ''Civitai'', ''Civitai.list''], []),
      ([''upstream'', ''rule'', ''Surge'', ''Stripe'', ''Stripe.list''], []),
      ([''upstream'', ''rule'', ''Surge'', ''PayPal'', ''PayPal.list''], []),
      ([''upstream'', ''rule'', ''Surge'', ''Global'', ''Global.list''],
         ''DOMAIN-SUFFIX,extra.example\<newline>'')]"

definition example_extra_text :: string where
  "example_extra_text =
     ''# extra\<newline>DOMAIN-SUFFIX,extra.example\<newline>DOMAIN-SUFFIX,custom.example\<newline>DOMAIN-SUFFIX,missing.example\<newline>''"

definition example_repo :: filesystem where
  "example_repo =
     [([''repo'', ''data'', ''upstream_extra_rules.txt''], example_extra_text),
      ([''repo'', ''rule'', ''Surge'', ''OverseasAI'', ''OverseasAI_Custom.list''],
         ''DOMAIN-SUFFIX,custom.example\<newline>DOMAIN-SUFFIX,no-resolve.example.com\<newline>'')]"

definition example_fs :: filesystem where
  "example_fs =
     ([''upstream'', ''rule'', ''Surge'', ''Claude'', ''Claude.list''], ''DOMAIN-SUFFIX,claude.ai\<newline>'')
       # example_upstream @ example_repo"

definition example_fs_no_claude :: filesystem where
  "example_fs_no_claude = example_upstream @ example_repo"

definition example_locals :: sync_locals where
  "example_locals =
     projr (sync_compute sorted_list_of_set [''repo''] [''upstream''] example_fs)"

section \<open>Properties of the liveness checker\<close>

lemma answered_not_failed: "answered x \<Longrightarrow> \<not> resolution_failed x"
  by (cases x) simp_all

lemma neither_is_NXDOMAIN: "\<not> answered x \<Longrightarrow> \<not> resolution_failed x \<Longrightarrow> x = Raise_NXDOMAIN"
  by (cases x) simp_all

lemma query_loop_both:
  "query_loop resolve [Query_A, Query_AAAA] ok made =
     (ok \<or> answered (resolve Query_A)
         \<or> (\<not> resolution_failed (resolve Query_A) \<and> answered (resolve Query_AAAA)),
      made @ (if resolution_failed (resolve Query_A) then [resolve Query_A]
              else [resolve Query_A, resolve Query_AAAA]),
      resolution_failed (resolve Query_A)
         \<or> (\<not> resolution_failed (resolve Query_A) \<and> resolution_failed (resolve Query_AAAA)))"
  by (cases "resolve Query_A"; cases "resolve Query_AAAA"; simp)

lemma resolver_loop_result:
  "resolver_loop dns rs ok unknown made =
     (ok \<or> (\<exists>r\<in>set rs. answered (dns r Query_A)
                \<or> (\<not> resolution_failed (dns r Query_A) \<and> answered (dns r Query_AAAA))),
      unknown \<or> (\<exists>r\<in>set rs. resolution_failed (dns r Query_A)
                \<or> (\<not> resolution_failed (dns r Query_A) \<and> resolution_failed (dns r Query_AAAA))),
      made @ concat (map (\<lambda>r. if resolution_failed (dns r Query_A) then [dns r Query_A]
                               else [dns r Query_A, dns r Query_AAAA]) rs))"
proof (induction rs arbitrary: ok unknown made)
  case Nil
  then show ?case by simp
next
  case (Cons r rs)
  show ?case
    by (simp only: resolver_loop.simps query_loop_both prod.case Cons.IH) auto
qed

lemma made_answered:
  "(\<exists>x\<in>set (concat (map (\<lambda>r. if resolution_failed (dns r Query_A) then [dns r Query_A]
                                  else [dns r Query_A, dns r Query_AAAA]) rs)). answered x)
   \<longleftrightarrow> (\<exists>r\<in>set rs. answered (dns r Query_A)
                \<or> (\<not> resolution_failed (dns r Query_A) \<and> answered (dns r Query_AAAA)))"
  by (auto dest: answered_not_failed split: if_splits)

lemma made_failed:
  "(\<exists>x\<in>set (concat (map (\<lambda>r. if resolution_failed (dns r Query_A) then [dns r Query_A]
                                  else [dns r Query_A, dns r Query_AAAA]) rs)). resolution_failed x)
   \<longleftrightarrow> (\<exists>r\<in>set rs. resolution_failed (dns r Query_A)
                \<or> (\<not> resolution_failed (dns r Query_A) \<and> resolution_failed (dns r Query_AAAA)))"
  by (auto split: if_splits)

text \<open>
  Claim C8, as amended. The attempts for a domain are the queries the check makes: for
  each resolver the \<open>A\<close> query, and the \<open>AAAA\<close> query only when the \<open>A\<close> query of that
  resolver did not fail to resolve. The status is \<open>OK\<close> if one of the attempts was
  answered (with records, or with none); otherwise \<open>UNKNOWN\<close> if one of them failed to
  resolve; otherwise \<open>NXDOMAIN\<close>, and then the outcome of both kinds of query at every
  resolver is that the name does not exist.
\<close>

theorem check_domain_classification:
  "attempts dns domain =
     concat (map (\<lambda>r. if resolution_failed (dns domain r Query_A) then [dns domain r Query_A]
                       else [dns domain r Query_A, dns domain r Query_AAAA]) RESOLVERS)
   \<and> check_domain dns domain =
     (if \<exists>x\<in>set (attempts dns domain). answered x then ''OK''
      else if \<exists>x\<in>set (attempts dns domain). resolution_failed x then ''UNKNOWN''
      else ''NXDOMAIN'')
   \<and> (check_domain dns domain = ''NXDOMAIN'' \<longrightarrow>
        (\<forall>r\<in>set RESOLVERS. dns domain r Query_A = Raise_NXDOMAIN
                            \<and> dns domain r Query_AAAA = Raise_NXDOMAIN))"
proof -
  let ?made = "concat (map (\<lambda>r. if resolution_failed (dns domain r Query_A)
                                  then [dns domain r Query_A]
                                  else [dns domain r Query_A, dns domain r Query_AAAA]) RESOLVERS)"
  let ?ok = "\<exists>r\<in>set RESOLVERS. answered (dns domain r Query_A)
                \<or> (\<not> resolution_failed (dns domain r Query_A) \<and> answered (dns domain r Query_AAAA))"
  let ?unknown = "\<exists>r\<in>set RESOLVERS. resolution_failed (dns domain r Query_A)
                \<or> (\<not> resolution_failed (dns domain r Query_A)
                     \<and> resolution_failed (dns domain r Query_AAAA))"
  have r: "resolver_loop (dns domain) RESOLVERS False False [] = (?ok, ?unknown, ?made)"
    by (simp add: resolver_loop_result)
  have 1: "attempts dns domain = ?made"
    unfolding attempts_def r by simp
  have c: "check_domain dns domain =
      (if ?ok then ''OK'' else if ?unknown then ''UNKNOWN'' else ''NXDOMAIN'')"
    unfolding check_domain_def r by simp
  have a: "(\<exists>x\<in>set (attempts dns domain). answered x) \<longleftrightarrow> ?ok"
    unfolding 1 by (rule made_answered)
  have f: "(\<exists>x\<in>set (attempts dns domain). resolution_failed x) \<longleftrightarrow> ?unknown"
    unfolding 1 by (rule made_failed)
  have 2: "check_domain dns domain =
     (if \<exists>x\<in>set (attempts dns domain). answered x then ''OK''
      else if \<exists>x\<in>set (attempts dns domain). resolution_failed x then ''UNKNOWN''
      else ''NXDOMAIN'')"
    unfolding a f by (rule c)
  have 3: "check_domain dns domain = ''NXDOMAIN'' \<longrightarrow>
        (\<forall>r\<in>set RESOLVERS. dns domain r Query_A = Raise_NXDOMAIN
                            \<and> dns domain r Query_AAAA = Raise_NXDOMAIN)"
  proof
    assume n: "check_domain dns domain = ''NXDOMAIN''"
    from n c have no: "\<not> ?ok" by (auto split: if_splits)
    from n c have nu: "\<not> ?unknown" by (auto split: if_splits)
    show "\<forall>r\<in>set RESOLVERS. dns domain r Query_A = Raise_NXDOMAIN
                            \<and> dns domain r Query_AAAA = Raise_NXDOMAIN"
    proof
      fix r assume r: "r \<in> set RESOLVERS"
      from no r have a1: "\<not> answered (dns domain r Query_A)" by blast
      from nu r have f1: "\<not> resolution_failed (dns domain r Query_A)" by blast
      from no r f1 have a2: "\<not> answered (dns domain r Query_AAAA)" by blast
      from nu r f1 have f2: "\<not> resolution_failed (dns domain r Query_AAAA)" by blast
      from neither_is_NXDOMAIN [OF a1 f1] neither_is_NXDOMAIN [OF a2 f2]
      show "dns domain r Query_A = Raise_NXDOMAIN \<and> dns domain r Query_AAAA = Raise_NXDOMAIN"
        by simp
    qed
  qed
  show ?thesis using 1 2 3 by blast
qed

theorem check_domain_classification_witness:
  "check_domain dns_all_nxdomain ''gone.example'' = ''NXDOMAIN''
   \<and> attempts dns_all_nxdomain ''gone.example''
        = [Raise_NXDOMAIN, Raise_NXDOMAIN, Raise_NXDOMAIN, Raise_NXDOMAIN]
   \<and> dns_all_nxdomain ''gone.example'' ''8.8.8.8'' Query_AAAA = Raise_NXDOMAIN"
proof -
  note t = check_domain_classification [of dns_all_nxdomain "''gone.example''"]
  from t have a: "attempts dns_all_nxdomain ''gone.example''
        = [Raise_NXDOMAIN, Raise_NXDOMAIN, Raise_NXDOMAIN, Raise_NXDOMAIN]"
    by (simp add: RESOLVERS_def dns_all_nxdomain_def)
  from t a have c: "check_domain dns_all_nxdomain ''gone.example'' = ''NXDOMAIN''"
    by simp
  from t c have "dns_all_nxdomain ''gone.example'' ''8.8.8.8'' Query_AAAA = Raise_NXDOMAIN"
    by (simp add: RESOLVERS_def)
  with a c show ?thesis by blast
qed

text \<open>
  Claim C8 as stated fails: both resolvers time out on the \<open>A\<close> query and would answer the
  \<open>AAAA\<close> query with records; the \<open>AAAA\<close> queries are not made, and the status is
  \<open>UNKNOWN\<close>, not \<open>OK\<close>.
\<close>

theorem check_domain_counterexample:
  "dns_timeout_then_answer ''slow.example'' ''1.1.1.1'' Query_AAAA = Answer_rrset
   \<and> dns_timeout_then_answer ''slow.example'' ''8.8.8.8'' Query_AAAA = Answer_rrset
   \<and> answered Answer_rrset
   \<and> attempts dns_timeout_then_answer ''slow.example'' = [Raise_Timeout, Raise_Timeout]
   \<and> check_domain dns_timeout_then_answer ''slow.example'' = ''UNKNOWN''"
  by (simp add: attempts_def check_domain_def RESOLVERS_def dns_timeout_then_answer_def)

text \<open>
  After the time-out of the first query to \<open>1.1.1.1\<close> the second record kind is not
  asked of that resolver: three queries are made, and the status is \<open>UNKNOWN\<close>.
\<close>

lemma check_domain_timeout_example:
  "attempts dns_first_timeout ''slow.example'' = [Raise_Timeout, Raise_NXDOMAIN, Raise_NXDOMAIN]
   \<and> check_domain dns_first_timeout ''slow.example'' = ''UNKNOWN''"
  by (simp add: attempts_def check_domain_def RESOLVERS_def dns_first_timeout_def)

lemma updated_state_fold:
  "updated_state (fold (loop_body state results utcnow) ds s) d =
     (if d \<in> set ds
      then Some \<lparr> count = next_count (run_status results d) (prev_count state d),
                  last_status = run_status results d,
                  last_checked = utcnow d @ ''Z'' \<rparr>
      else updated_state s d)"
  by (induction ds arbitrary: s) (auto simp: loop_body_def Let_def)

lemma candidates_fold:
  "set (candidates (fold (loop_body state results utcnow) ds s)) =
     set (candidates s) \<union>
     {d \<in> set ds. next_count (run_status results d) (prev_count state d) \<ge> THRESHOLD}"
  by (induction ds arbitrary: s) (auto simp: loop_body_def Let_def)

text \<open>
  Claim C1, as amended. The state written at the end of a run holds a record for exactly
  the domains of the current rule corpus: \<open>updated_state\<close> starts empty and gets one entry
  per checked domain, so a domain of the prior state that the corpus no longer names has
  no record in the written state.
\<close>

theorem written_state_keys:
  "dom (state_written (check_main rules_text state results utcnow)) =
     set (iter_domains (parse_rules rules_text))"
  by (auto simp: check_main_def Let_def updated_state_fold loop_init_def dom_def
           split: if_splits)

text \<open>
  Claim C1 as stated fails: the prior state has a record for \<open>gone.example\<close>, the
  corpus names only \<open>new.example\<close>, and the written state has no record for
  \<open>gone.example\<close>.
\<close>

theorem historical_record_counterexample:
  "example_state ''gone.example'' =
      Some \<lparr> count = 2, last_status = ''NXDOMAIN'', last_checked = ''2023-12-31T00:00:00Z'' \<rparr>
   \<and> ''gone.example'' \<notin> set (iter_domains (parse_rules ''DOMAIN-SUFFIX,new.example''))
   \<and> state_written (check_main ''DOMAIN-SUFFIX,new.example'' example_state example_results
        fixed_clock) ''gone.example'' = None"
proof -
  have a: "iter_domains (parse_rules ''DOMAIN-SUFFIX,new.example'') = [''new.example'']"
    by code_simp
  show ?thesis
    by (simp add: a example_state_def check_main_def Let_def loop_body_def loop_init_def)
qed

text \<open>
  Claim C2. For a domain of the corpus, with \<open>c\<close> the count of its prior record (0 when
  it has none) and \<open>s\<close> its status in this run, the record written has count 0 when
  \<open>s\<close> is \<open>OK\<close>, \<open>c + 1\<close> when \<open>s\<close> is \<open>NXDOMAIN\<close> and \<open>c\<close> when \<open>s\<close> is \<open>UNKNOWN\<close>;
  its \<open>last_status\<close> is \<open>s\<close> and its \<open>last_checked\<close> the time of this run, whatever
  \<open>s\<close> is; and the domain is among the candidates exactly when the new count is at
  least 3.
\<close>

theorem staleness_update:
  assumes "domain \<in> set (iter_domains (parse_rules rules_text))"
  shows "\<exists>r. state_written (check_main rules_text state results utcnow) domain = Some r
     \<and> (run_status results domain = ''OK'' \<longrightarrow> count r = 0)
     \<and> (run_status results domain = ''NXDOMAIN'' \<longrightarrow> count r = prev_count state domain + 1)
     \<and> (run_status results domain = ''UNKNOWN'' \<longrightarrow> count r = prev_count state domain)
     \<and> last_status r = run_status results domain
     \<and> last_checked r = utcnow domain @ ''Z''
     \<and> (domain \<in> set (candidates_written (check_main rules_text state results utcnow))
          \<longleftrightarrow> count r \<ge> 3)"
  using assms
  by (simp add: check_main_def Let_def updated_state_fold candidates_fold loop_init_def
        next_count_def THRESHOLD_def)

theorem staleness_update_witness:
  "''gone.example'' \<in> set (iter_domains (parse_rules ''DOMAIN-SUFFIX,gone.example''))
   \<and> (\<exists>r. state_written (check_main ''DOMAIN-SUFFIX,gone.example'' example_state example_results
              fixed_clock) ''gone.example'' = Some r
        \<and> count r = 3 \<and> last_status r = ''NXDOMAIN''
        \<and> last_checked r = ''2024-01-01T00:00:00Z''
        \<and> ''gone.example'' \<in> set (candidates_written
              (check_main ''DOMAIN-SUFFIX,gone.example'' example_state example_results
                 fixed_clock)))"
proof -
  have h: "''gone.example'' \<in> set (iter_domains (parse_rules ''DOMAIN-SUFFIX,gone.example''))"
    by code_simp
  have s: "run_status example_results ''gone.example'' = ''NXDOMAIN''"
    by (simp add: run_status_def example_results_def)
  have p: "prev_count example_state ''gone.example'' = 2"
    by (simp add: prev_count_def example_state_def)
  from staleness_update [OF h, of example_state example_results fixed_clock]
  show ?thesis using h s p by (auto simp: fixed_clock_def)
qed

section \<open>Properties of the remapped dialect\<close>

lemma split_on_not_Nil: "split_on sep s \<noteq> []"
  by (induction s) (auto split: list.splits)

lemma split_on_no_sep: "sep \<notin> set s \<Longrightarrow> split_on sep s = [s]"
  by (induction s) auto

lemma split_on_append_sep:
  "sep \<notin> set x \<Longrightarrow> split_on sep (x @ sep # rest) = x # split_on sep rest"
  by (induction x) auto

lemma split_on_fields: "f \<in> set (split_on sep s) \<Longrightarrow> sep \<notin> set f"
proof (induction s arbitrary: f)
  case Nil
  then show ?case by simp
next
  case (Cons c cs)
  show ?case
  proof (cases "c = sep")
    case True
    with Cons show ?thesis by auto
  next
    case False
    obtain w ws where sp: "split_on sep cs = w # ws"
      using split_on_not_Nil [of sep cs] by (cases "split_on sep cs") auto
    with Cons.prems False have "f = c # w \<or> f \<in> set ws" by auto
    then show ?thesis
    proof
      assume "f = c # w"
      moreover have "sep \<notin> set w" using Cons.IH [of w] sp by simp
      ultimately show ?thesis using False by auto
    next
      assume "f \<in> set ws"
      then show ?thesis using Cons.IH [of f] sp by simp
    qed
  qed
qed

lemma split_on_join:
  "ps \<noteq> [] \<Longrightarrow> (\<And>f. f \<in> set ps \<Longrightarrow> sep \<notin> set f) \<Longrightarrow>
     split_on sep (join_with [sep] ps) = ps"
proof (induction ps)
  case Nil
  then show ?case by simp
next
  case (Cons x xs)
  show ?case
  proof (cases xs)
    case Nil
    with Cons.prems show ?thesis by (simp add: split_on_no_sep)
  next
    case (Cons y ys)
    have "split_on sep (join_with [sep] xs) = xs"
      using Cons.IH Cons.prems Cons by simp
    moreover have "sep \<notin> set x" using Cons.prems by simp
    ultimately show ?thesis using Cons by (simp add: split_on_append_sep)
  qed
qed

lemma qx_type_of_no_comma: "CHR '','' \<notin> set t \<Longrightarrow> CHR '','' \<notin> set (qx_type_of t)"
  by (simp add: qx_type_of_def)

lemma qx_line_fields:
  "CHR '','' \<notin> set t \<Longrightarrow> CHR '','' \<notin> set v \<Longrightarrow> (\<And>m. m \<in> set mods \<Longrightarrow> CHR '','' \<notin> set m) \<Longrightarrow>
     qx_line (join_with '','' (t # v # mods)) = qx_type_of t @ '','' @ v @ '',OverseasAI''"
proof -
  assume a: "CHR '','' \<notin> set t" "CHR '','' \<notin> set v" "\<And>m. m \<in> set mods \<Longrightarrow> CHR '','' \<notin> set m"
  have "split_on CHR '','' (join_with '','' (t # v # mods)) = t # v # mods"
    by (rule split_on_join) (use a in auto)
  then show ?thesis by (simp add: qx_line_def qx_transform_def Let_def)
qed

text \<open>
  Claim C7. For a rule made of a type, a value and any modifiers (fields without a
  comma, joined by commas), the remapped line is the remapped type, the value and the
  group label \<open>OverseasAI\<close>: no modifier reaches it, \<open>no-resolve\<close> included. The
  five \<open>DOMAIN\<close> types become the \<open>HOST\<close> types and every other type is kept; the
  rule \<open>DOMAIN-SUFFIX,x.com,no-resolve\<close> gives \<open>HOST-SUFFIX,x.com,OverseasAI\<close>.
\<close>

theorem remap_transform:
  assumes "CHR '','' \<notin> set t" and "CHR '','' \<notin> set v"
    and "\<forall>m\<in>set mods. CHR '','' \<notin> set m"
  shows "qx_line (join_with '','' (t # v # mods)) = qx_type_of t @ '','' @ v @ '',OverseasAI''
    \<and> qx_type_of ''DOMAIN'' = ''HOST''
    \<and> qx_type_of ''DOMAIN-SUFFIX'' = ''HOST-SUFFIX''
    \<and> qx_type_of ''DOMAIN-KEYWORD'' = ''HOST-KEYWORD''
    \<and> qx_type_of ''DOMAIN-WILDCARD'' = ''HOST-WILDCARD''
    \<and> qx_type_of ''DOMAIN-REGEX'' = ''HOST-REGEX''
    \<and> (t \<notin> {''DOMAIN'', ''DOMAIN-SUFFIX'', ''DOMAIN-KEYWORD'', ''DOMAIN-WILDCARD'', ''DOMAIN-REGEX''}
         \<longrightarrow> qx_type_of t = t)
    \<and> qx_line ''DOMAIN-SUFFIX,x.com,no-resolve'' = ''HOST-SUFFIX,x.com,OverseasAI''"
proof -
  have 1: "qx_line (join_with '','' (t # v # mods)) = qx_type_of t @ '','' @ v @ '',OverseasAI''"
    using assms by (intro qx_line_fields) auto
  have 2: "qx_line ''DOMAIN-SUFFIX,x.com,no-resolve'' = ''HOST-SUFFIX,x.com,OverseasAI''"
    using qx_line_fields [of "''DOMAIN-SUFFIX''" "''x.com''" "[''no-resolve'']"]
    by (simp add: qx_type_of_def)
  show ?thesis using 1 2 by (simp add: qx_type_of_def)
qed

theorem remap_transform_witness:
  "CHR '','' \<notin> set ''IP-CIDR'' \<and> CHR '','' \<notin> set ''1.2.3.0/24'' \<and> CHR '','' \<notin> set ''no-resolve''
   \<and> qx_line ''IP-CIDR,1.2.3.0/24,no-resolve'' = ''IP-CIDR,1.2.3.0/24,OverseasAI''"
  using remap_transform [of "''IP-CIDR''" "''1.2.3.0/24''" "[''no-resolve'']"]
  by (simp add: qx_type_of_def)

lemma split_on_three:
  assumes "sep \<notin> set a" and "sep \<notin> set b" and "sep \<notin> set c"
  shows "split_on sep (a @ sep # b @ sep # c) = [a, b, c]"
proof -
  have "split_on sep (a @ sep # (b @ sep # c)) = a # split_on sep (b @ sep # c)"
    using assms(1) by (rule split_on_append_sep)
  also have "split_on sep (b @ sep # c) = b # split_on sep c"
    using assms(2) by (rule split_on_append_sep)
  also have "split_on sep c = [c]"
    using assms(3) by (rule split_on_no_sep)
  finally show ?thesis by simp
qed

text \<open>
  Claim C10. For every rule, the remapped line has exactly three fields between commas:
  the remapped type, the value (empty when the rule has no second field) and the group
  label, however many modifiers the rule has; a rule without a comma gives its remapped
  type, an empty value and the label.
\<close>

theorem remap_three_fields:
  "split_on CHR '','' (qx_line rule) =
     [qx_type_of (hd (split_on CHR '','' rule)),
      (if length (split_on CHR '','' rule) > 1 then split_on CHR '','' rule ! 1 else []),
      ''OverseasAI'']
   \<and> (CHR '','' \<notin> set rule \<longrightarrow> qx_line rule = qx_type_of rule @ '',,OverseasAI'')"
proof -
  obtain p ps where sp: "split_on CHR '','' rule = p # ps"
    using split_on_not_Nil [of "CHR '',''" rule] by (cases "split_on CHR '','' rule") auto
  define v where "v = (case ps of [] \<Rightarrow> [] | x # xs \<Rightarrow> x)"
  have p: "CHR '','' \<notin> set p"
    using split_on_fields [of p "CHR '',''" rule] sp by simp
  have v: "CHR '','' \<notin> set v"
  proof (cases ps)
    case Nil
    then show ?thesis by (simp add: v_def)
  next
    case (Cons x xs)
    then show ?thesis using split_on_fields [of x "CHR '',''" rule] sp by (simp add: v_def)
  qed
  have vv: "(if length (p # ps) > 1 then (p # ps) ! 1 else []) = v"
    by (cases ps) (simp_all add: v_def)
  have ql: "qx_line rule = qx_type_of p @ CHR '','' # v @ CHR '','' # ''OverseasAI''"
    using vv by (simp add: qx_line_def qx_transform_def Let_def sp)
  have g: "CHR '','' \<notin> set ''OverseasAI''" by simp
  have "split_on CHR '','' (qx_type_of p @ CHR '','' # v @ CHR '','' # ''OverseasAI'')
          = [qx_type_of p, v, ''OverseasAI'']"
    using qx_type_of_no_comma [OF p] v g by (rule split_on_three)
  then have 1: "split_on CHR '','' (qx_line rule) =
     [qx_type_of (hd (split_on CHR '','' rule)),
      (if length (split_on CHR '','' rule) > 1 then split_on CHR '','' rule ! 1 else []),
      ''OverseasAI'']"
    unfolding ql sp vv by simp
  have 2: "CHR '','' \<notin> set rule \<longrightarrow> qx_line rule = qx_type_of rule @ '',,OverseasAI''"
    by (simp add: qx_line_def qx_transform_def Let_def split_on_no_sep)
  show ?thesis using 1 2 by blast
qed

theorem remap_three_fields_witness:
  "CHR '','' \<notin> set ''USER-AGENT''
   \<and> qx_line ''USER-AGENT'' = ''USER-AGENT,,OverseasAI''
   \<and> split_on CHR '','' (qx_line ''IP-CIDR,1.2.3.0/24,no-resolve,extra'')
       = [''IP-CIDR'', ''1.2.3.0/24'', ''OverseasAI'']"
proof -
  have a: "split_on CHR '','' ''IP-CIDR,1.2.3.0/24,no-resolve,extra''
      = [''IP-CIDR'', ''1.2.3.0/24'', ''no-resolve'', ''extra'']" by simp
  have b: "qx_type_of ''USER-AGENT'' = ''USER-AGENT''" by (simp add: qx_type_of_def)
  have c: "qx_type_of ''IP-CIDR'' = ''IP-CIDR''" by (simp add: qx_type_of_def)
  have n: "CHR '','' \<notin> set ''USER-AGENT''" by simp
  from remap_three_fields [of "''USER-AGENT''"] n b
  have 1: "qx_line ''USER-AGENT'' = ''USER-AGENT,,OverseasAI''" by simp
  from remap_three_fields [of "''IP-CIDR,1.2.3.0/24,no-resolve,extra''"]
  have 2: "split_on CHR '','' (qx_line ''IP-CIDR,1.2.3.0/24,no-resolve,extra'')
       = [''IP-CIDR'', ''1.2.3.0/24'', ''OverseasAI'']"
    unfolding a by (simp add: c)
  show ?thesis using n 1 2 by blast
qed

section \<open>Properties of the canonical ordering\<close>

lemma partition_on_no_sep:
  "sep \<notin> set s \<Longrightarrow> partition_on sep s = (s, [], [])"
  by (simp add: partition_on_def Let_def dropWhile_eq_Nil_conv)

lemma partition_on_sep:
  assumes "sep \<in> set s"
  shows "\<exists>h t. partition_on sep s = (h, [sep], t) \<and> s = h @ sep # t \<and> sep \<notin> set h"
proof -
  let ?h = "takeWhile (\<lambda>c. c \<noteq> sep) s"
  let ?r = "dropWhile (\<lambda>c. c \<noteq> sep) s"
  have ne: "?r \<noteq> []" using assms by (simp add: dropWhile_eq_Nil_conv) 
  then have hd: "hd ?r = sep" using hd_dropWhile [of "\<lambda>c. c \<noteq> sep" s] by auto
  have "s = ?h @ ?r" by simp
  also have "?r = sep # tl ?r" using ne hd by (cases ?r) auto
  finally have s: "s = ?h @ sep # tl ?r" .
  have h: "sep \<notin> set ?h" by (auto dest: set_takeWhileD)
  have "partition_on sep s = (?h, [sep], tl ?r)" using ne by (simp add: partition_on_def Let_def)
  with s h show ?thesis by blast
qed

lemma sort_key_rule_eq:
  assumes "sort_key_rule a = sort_key_rule b" and "a \<noteq> b"
  shows "(CHR '','' \<notin> set a \<and> b = a @ '','') \<or> (CHR '','' \<notin> set b \<and> a = b @ '','')"
proof (cases "CHR '','' \<in> set a")
  case True
  from partition_on_sep [OF True] obtain h t where
    pa: "partition_on CHR '','' a = (h, '','', t)" and a: "a = h @ CHR '','' # t" and h: "CHR '','' \<notin> set h"
    by auto
  show ?thesis
  proof (cases "CHR '','' \<in> set b")
    case True
    from partition_on_sep [OF True] obtain h' t' where
      pb: "partition_on CHR '','' b = (h', '','', t')" and b: "b = h' @ CHR '','' # t'"
      by auto
    from assms(1) pa pb have "h = h'" "t = t'" by (simp_all add: sort_key_rule_def)
    with a b assms(2) show ?thesis by simp
  next
    case False
    then have pb: "partition_on CHR '','' b = (b, [], [])" by (rule partition_on_no_sep)
    from assms(1) pa pb have "h = b" "t = []" by (simp_all add: sort_key_rule_def)
    with a False show ?thesis by simp
  qed
next
  case False
  then have pa: "partition_on CHR '','' a = (a, [], [])" by (rule partition_on_no_sep)
  show ?thesis
  proof (cases "CHR '','' \<in> set b")
    case True
    from partition_on_sep [OF True] obtain h' t' where
      pb: "partition_on CHR '','' b = (h', '','', t')" and b: "b = h' @ CHR '','' # t'"
      by auto
    from assms(1) pa pb have "a = h'" "t' = []" by (simp_all add: sort_key_rule_def)
    with b False show ?thesis by simp
  next
    case False
    then have pb: "partition_on CHR '','' b = (b, [], [])" by (rule partition_on_no_sep)
    from assms(1) pa pb have "a = b" by (simp add: sort_key_rule_def)
    with assms(2) show ?thesis by simp
  qed
qed

lemma sort_key_inj_unique:
  fixes f :: "'a \<Rightarrow> 'k::linorder"
  assumes "inj_on f (set xs)" and "distinct xs" and "distinct ys" and "set xs = set ys"
  shows "sort_key f xs = sort_key f ys"
proof -
  have dx: "distinct (map f (sort_key f xs))"
    using assms(1,2) by (simp add: distinct_map)
  have dy: "distinct (map f (sort_key f ys))"
    using assms(1,3,4) by (simp add: distinct_map)
  have "set (map f (sort_key f xs)) = set (map f (sort_key f ys))"
    using assms(4) by simp
  then have "map f (sort_key f xs) = map f (sort_key f ys)"
    using dx dy by (intro sorted_distinct_set_unique) simp_all
  moreover have "inj_on f (set (sort_key f xs) \<union> set (sort_key f ys))"
    using assms(1,4) by simp
  ultimately show ?thesis by (simp add: inj_on_map_eq_map)
qed

text \<open>
  Claim C3, as amended. Two enumerations of the same rule set are sorted into the same
  sequence whenever the set does not hold both a line \<open>t\<close> without a comma and the
  line \<open>t,\<close> (the only pairs of different lines with the same sort key).
\<close>

theorem canonical_sort_deterministic:
  assumes "distinct xs" and "distinct ys" and "set xs = set ys"
    and "\<forall>t\<in>set xs. CHR '','' \<notin> set t \<longrightarrow> t @ '','' \<notin> set xs"
  shows "sorted_rules xs = sorted_rules ys"
proof -
  have "inj_on sort_key_rule (set xs)"
  proof (rule inj_onI)
    fix a b assume ab: "a \<in> set xs" "b \<in> set xs" "sort_key_rule a = sort_key_rule b"
    show "a = b"
    proof (rule ccontr)
      assume "a \<noteq> b"
      from sort_key_rule_eq [OF ab(3) this] ab(1,2) assms(4) show False by auto
    qed
  qed
  then show ?thesis unfolding sorted_rules_def using assms(1-3) by (rule sort_key_inj_unique)
qed

lemma sort_key_DOMAIN: "sort_key_rule ''DOMAIN'' = (0, ''DOMAIN'', [])"
  by (simp add: sort_key_rule_def partition_on_def RULE_ORDER_def)
lemma sort_key_DOMAIN_comma: "sort_key_rule ''DOMAIN,'' = (0, ''DOMAIN'', [])"
  by (simp add: sort_key_rule_def partition_on_def RULE_ORDER_def)

text \<open>
  Claim C3 as stated fails: \<open>DOMAIN\<close> and \<open>DOMAIN,\<close> have the same sort key, the sort
  is stable, and so the two enumerations of this set of two rules come out in
  different orders.
\<close>

theorem canonical_sort_counterexample:
  "set [''DOMAIN'', ''DOMAIN,''] = set [''DOMAIN,'', ''DOMAIN'']
   \<and> distinct [''DOMAIN'', ''DOMAIN,''] \<and> distinct [''DOMAIN,'', ''DOMAIN'']
   \<and> sorted_rules [''DOMAIN'', ''DOMAIN,''] = [''DOMAIN'', ''DOMAIN,'']
   \<and> sorted_rules [''DOMAIN,'', ''DOMAIN''] = [''DOMAIN,'', ''DOMAIN'']
   \<and> sorted_rules [''DOMAIN'', ''DOMAIN,''] \<noteq> sorted_rules [''DOMAIN,'', ''DOMAIN'']"
  by (auto simp: sorted_rules_def sort_key_DOMAIN sort_key_DOMAIN_comma)

lemma sort_key_IP_CIDR_example: "sort_key_rule ''IP-CIDR,1.2.3.0/24,no-resolve'' = (5, ''IP-CIDR'', ''1.2.3.0/24,no-resolve'')"
  by (simp add: sort_key_rule_def partition_on_def RULE_ORDER_def)
lemma sort_key_DOMAIN_SUFFIX_example: "sort_key_rule ''DOMAIN-SUFFIX,x.com'' = (1, ''DOMAIN-SUFFIX'', ''x.com'')"
  by (simp add: sort_key_rule_def partition_on_def RULE_ORDER_def)

theorem canonical_sort_deterministic_witness:
  "distinct [''IP-CIDR,1.2.3.0/24,no-resolve'', ''DOMAIN-SUFFIX,x.com'']
   \<and> distinct [''DOMAIN-SUFFIX,x.com'', ''IP-CIDR,1.2.3.0/24,no-resolve'']
   \<and> set [''IP-CIDR,1.2.3.0/24,no-resolve'', ''DOMAIN-SUFFIX,x.com'']
       = set [''DOMAIN-SUFFIX,x.com'', ''IP-CIDR,1.2.3.0/24,no-resolve'']
   \<and> sorted_rules [''IP-CIDR,1.2.3.0/24,no-resolve'', ''DOMAIN-SUFFIX,x.com'']
       = sorted_rules [''DOMAIN-SUFFIX,x.com'', ''IP-CIDR,1.2.3.0/24,no-resolve'']
   \<and> sorted_rules [''DOMAIN-SUFFIX,x.com'', ''IP-CIDR,1.2.3.0/24,no-resolve'']
       = [''DOMAIN-SUFFIX,x.com'', ''IP-CIDR,1.2.3.0/24,no-resolve'']"
proof -
  have d1: "distinct [''IP-CIDR,1.2.3.0/24,no-resolve'', ''DOMAIN-SUFFIX,x.com'']" by simp
  have d2: "distinct [''DOMAIN-SUFFIX,x.com'', ''IP-CIDR,1.2.3.0/24,no-resolve'']" by simp
  have s: "set [''IP-CIDR,1.2.3.0/24,no-resolve'', ''DOMAIN-SUFFIX,x.com'']
       = set [''DOMAIN-SUFFIX,x.com'', ''IP-CIDR,1.2.3.0/24,no-resolve'']" by auto
  have h: "\<forall>t\<in>set [''IP-CIDR,1.2.3.0/24,no-resolve'', ''DOMAIN-SUFFIX,x.com''].
      CHR '','' \<notin> set t \<longrightarrow> t @ '','' \<notin> set [''IP-CIDR,1.2.3.0/24,no-resolve'', ''DOMAIN-SUFFIX,x.com'']"
    by simp
  have e: "sorted_rules [''DOMAIN-SUFFIX,x.com'', ''IP-CIDR,1.2.3.0/24,no-resolve'']
       = [''DOMAIN-SUFFIX,x.com'', ''IP-CIDR,1.2.3.0/24,no-resolve'']"
    by (simp add: sorted_rules_def sort_key_IP_CIDR_example sort_key_DOMAIN_SUFFIX_example)
  from canonical_sort_deterministic [OF d1 d2 s h] d1 d2 s e show ?thesis by blast
qed

section \<open>Properties of the header builders\<close>

lemma count_lines_emitted:
  "count_lines keys counts = map (\<lambda>(k, n). count_line k n) (emitted_counts keys counts)"
  by (induction keys) (auto split: option.splits)

lemma emitted_counts_sum:
  "sum_list (map snd (emitted_counts keys counts)) = sum_list (map (counter_value counts) keys)"
  by (induction keys) (auto simp: counter_value_def split: option.splits)

lemma counter_sum_values:
  assumes "distinct (map fst counts)"
  shows "sum_list (map snd counts) = sum (counter_value counts) (fst ` set counts)"
proof -
  have "\<And>x. x \<in> set counts \<Longrightarrow> snd x = counter_value counts (fst x)"
  proof -
    fix x assume "x \<in> set counts"
    then have "(fst x, snd x) \<in> set counts" by simp
    with assms have "map_of counts (fst x) = Some (snd x)" by (rule map_of_is_SomeI)
    then show "snd x = counter_value counts (fst x)" by (simp add: counter_value_def)
  qed
  then have "map snd counts = map (\<lambda>x. counter_value counts (fst x)) counts"
    by (intro map_cong) auto
  also have "\<dots> = map (counter_value counts) (map fst counts)" by simp
  finally have m: "map snd counts = map (counter_value counts) (map fst counts)" .
  have "sum_list (map snd counts) = sum_list (map (counter_value counts) (map fst counts))"
    by (rule arg_cong [OF m])
  also have "\<dots> = sum (counter_value counts) (set (map fst counts))"
    using assms by (rule sum_list_distinct_conv_sum_set)
  finally show ?thesis by simp
qed

lemma total_is_emitted_sum:
  assumes d: "distinct (map fst counts)" and k: "distinct keys"
    and nz: "\<And>key n. (key, n) \<in> set counts \<Longrightarrow> n \<noteq> 0 \<Longrightarrow> key \<in> set keys"
  shows "sum_list (map snd counts) = sum_list (map snd (emitted_counts keys counts))"
proof -
  let ?v = "counter_value counts"
  let ?D = "fst ` set counts"
  have z1: "\<And>x. x \<in> (?D \<union> set keys) - ?D \<Longrightarrow> ?v x = 0"
  proof -
    fix x assume "x \<in> (?D \<union> set keys) - ?D"
    then have "x \<notin> fst ` set counts" by simp
    then have "map_of counts x = None" by (simp add: map_of_eq_None_iff)
    then show "?v x = 0" by (simp add: counter_value_def)
  qed
  have z2: "\<And>x. x \<in> (?D \<union> set keys) - set keys \<Longrightarrow> ?v x = 0"
  proof -
    fix x assume x: "x \<in> (?D \<union> set keys) - set keys"
    show "?v x = 0"
    proof (cases "map_of counts x")
      case None
      then show ?thesis by (simp add: counter_value_def)
    next
      case (Some n)
      then have "(x, n) \<in> set counts" by (rule map_of_SomeD)
      with nz [of x n] x have "n = 0" by auto
      with Some show ?thesis by (simp add: counter_value_def)
    qed
  qed
  have "sum ?v ?D = sum ?v (?D \<union> set keys)"
    by (rule sum.mono_neutral_left) (use z1 in auto)
  also have "\<dots> = sum ?v (set keys)"
    by (rule sum.mono_neutral_right) (use z2 in auto)
  also have "\<dots> = sum_list (map ?v keys)"
    using k by (simp add: sum_list_distinct_conv_sum_set)
  finally show ?thesis
    using counter_sum_values [OF d] emitted_counts_sum [of keys counts] by simp
qed

lemma distinct_RULE_KEYS: "distinct RULE_KEYS"
  by (simp add: RULE_KEYS_def)

text \<open>
  Claim C5, as amended. After the fixed lines, a header holds one count line for each
  listed type with a non-zero count, in the order of the list, and then the total line;
  the total is the sum of all counts of the input, listed type or not. It is the sum of
  the count lines above it whenever every type with a non-zero count is a listed type.
\<close>

theorem header_total:
  "drop 8 (sync_build_header name updated counts) =
      map (\<lambda>(k, n). count_line k n) (emitted_counts RULE_KEYS counts)
      @ [total_line (sum_list (map snd counts))]
   \<and> drop (1 + length base_meta) (build_header name base_meta counts) =
      map (\<lambda>(k, n). count_line k n) (emitted_counts RULE_KEYS counts)
      @ [total_line (sum_list (map snd counts))]
   \<and> (distinct (map fst counts) \<and> (\<forall>(k, n)\<in>set counts. n \<noteq> 0 \<longrightarrow> k \<in> set RULE_KEYS)
        \<longrightarrow> sum_list (map snd counts) = sum_list (map snd (emitted_counts RULE_KEYS counts)))"
proof -
  have 1: "drop 8 (sync_build_header name updated counts) =
      map (\<lambda>(k, n). count_line k n) (emitted_counts RULE_KEYS counts)
      @ [total_line (sum_list (map snd counts))]"
    by (simp add: sync_build_header_def count_lines_emitted)
  have 2: "drop (1 + length base_meta) (build_header name base_meta counts) =
      map (\<lambda>(k, n). count_line k n) (emitted_counts RULE_KEYS counts)
      @ [total_line (sum_list (map snd counts))]"
    by (simp add: build_header_def count_lines_emitted)
  have 3: "distinct (map fst counts) \<and> (\<forall>(k, n)\<in>set counts. n \<noteq> 0 \<longrightarrow> k \<in> set RULE_KEYS)
        \<longrightarrow> sum_list (map snd counts) = sum_list (map snd (emitted_counts RULE_KEYS counts))"
  proof
    assume a: "distinct (map fst counts) \<and> (\<forall>(k, n)\<in>set counts. n \<noteq> 0 \<longrightarrow> k \<in> set RULE_KEYS)"
    show "sum_list (map snd counts) = sum_list (map snd (emitted_counts RULE_KEYS counts))"
      by (rule total_is_emitted_sum) (use a distinct_RULE_KEYS in auto)
  qed
  show ?thesis using 1 2 3 by blast
qed

lemma Counter_example:
  "Counter (map first_field [''DOMAIN,a.com'', ''DOMAIN,b.com'', ''IP-CIDR,1.2.3.0/24,no-resolve''])
     = [(''DOMAIN'', 2), (''IP-CIDR'', 1)]"
  by code_simp

lemma build_header_example:
  "build_header ''OverseasAI'' [] [(''DOMAIN'', 2), (''IP-CIDR'', 1)]
     = [''# NAME: OverseasAI'', ''# DOMAIN: 2'', ''# IP-CIDR: 1'', ''# TOTAL: 3'']"
  by code_simp

theorem header_total_witness:
  "distinct (map fst [(''DOMAIN'', 2::int), (''IP-CIDR'', 1)])
   \<and> ''DOMAIN'' \<in> set RULE_KEYS \<and> ''IP-CIDR'' \<in> set RULE_KEYS
   \<and> sum_list (map snd [(''DOMAIN'', 2::int), (''IP-CIDR'', 1)])
       = sum_list (map snd (emitted_counts RULE_KEYS [(''DOMAIN'', 2), (''IP-CIDR'', 1)]))
   \<and> drop 1 (build_header ''OverseasAI'' [] [(''DOMAIN'', 2), (''IP-CIDR'', 1)])
       = [''# DOMAIN: 2'', ''# IP-CIDR: 1'', ''# TOTAL: 3'']"
proof -
  have d: "distinct (map fst [(''DOMAIN'', 2::int), (''IP-CIDR'', 1)])" by simp
  have k: "''DOMAIN'' \<in> set RULE_KEYS" "''IP-CIDR'' \<in> set RULE_KEYS"
    by (simp_all add: RULE_KEYS_def)
  have b: "\<forall>(k, n)\<in>set [(''DOMAIN'', 2::int), (''IP-CIDR'', 1)]. n \<noteq> 0 \<longrightarrow> k \<in> set RULE_KEYS"
    using k by simp
  from header_total [of "''OverseasAI''" "[]" "[(''DOMAIN'', 2), (''IP-CIDR'', 1)]" "[]"] d b
  have "sum_list (map snd [(''DOMAIN'', 2::int), (''IP-CIDR'', 1)])
       = sum_list (map snd (emitted_counts RULE_KEYS [(''DOMAIN'', 2), (''IP-CIDR'', 1)]))"
    by blast
  moreover have "drop 1 (build_header ''OverseasAI'' [] [(''DOMAIN'', 2), (''IP-CIDR'', 1)])
       = [''# DOMAIN: 2'', ''# IP-CIDR: 1'', ''# TOTAL: 3'']"
    by (simp add: build_header_example)
  ultimately show ?thesis using d k by blast
qed

text \<open>
  Claim C5 as stated fails: a corpus whose only rule has the type \<open>PROCESS-NAME\<close> gives
  a header with no count line and the total 1, while the count lines emitted sum to 0.
\<close>

theorem header_total_counterexample:
  "Counter (map first_field [''PROCESS-NAME,claude'']) = [(''PROCESS-NAME'', 1)]
   \<and> build_header ''OverseasAI'' [] [(''PROCESS-NAME'', 1)]
       = [''# NAME: OverseasAI'', ''# TOTAL: 1'']
   \<and> drop 8 (sync_build_header ''OverseasAI'' ''2024-01-01 00:00:00'' [(''PROCESS-NAME'', 1)])
       = [''# TOTAL: 1'']
   \<and> emitted_counts RULE_KEYS [(''PROCESS-NAME'', 1)] = []
   \<and> sum_list (map snd (emitted_counts RULE_KEYS [(''PROCESS-NAME'', 1)])) = 0
   \<and> total_line 0 \<noteq> ''# TOTAL: 1''"
proof -
  have 1: "Counter (map first_field [''PROCESS-NAME,claude'']) = [(''PROCESS-NAME'', 1)]"
    by code_simp
  have 2: "build_header ''OverseasAI'' [] [(''PROCESS-NAME'', 1)]
       = [''# NAME: OverseasAI'', ''# TOTAL: 1'']"
    by code_simp
  have 3: "drop 8 (sync_build_header ''OverseasAI'' ''2024-01-01 00:00:00'' [(''PROCESS-NAME'', 1)])
       = [''# TOTAL: 1'']"
    by code_simp
  have 4: "emitted_counts RULE_KEYS [(''PROCESS-NAME'', 1)] = []"
    by code_simp
  have 5: "total_line 0 \<noteq> ''# TOTAL: 1''"
    by code_simp
  show ?thesis using 1 2 3 4 5 by simp
qed

section \<open>Properties of the corpus merger\<close>

lemma dir_exists_mkdir: "dir_exists (mkdir_parents d dirs) fs d"
  by (simp add: dir_exists_def mkdir_parents_def in_set_prefixes)

lemma dir_exists_mono:
  "dir_exists dirs fs d \<Longrightarrow> dirs \<subseteq> dirs' \<Longrightarrow> dir_exists dirs' (ws @ fs) d"
  by (auto simp: dir_exists_def list_ex_iff)

lemma write_all_ok:
  "(\<And>p t. (p, t) \<in> set ws \<Longrightarrow> dir_exists dirs fs (parent p)) \<Longrightarrow>
     write_all dirs ws fs = (Inr (), rev ws @ fs)"
proof (induction ws arbitrary: fs)
  case Nil
  then show ?case by simp
next
  case (Cons w ws)
  obtain p t where w: "w = (p, t)" by (cases w)
  have 1: "dir_exists dirs fs (parent p)" using Cons.prems [of p t] w by simp
  have 2: "\<And>q u. (q, u) \<in> set ws \<Longrightarrow> dir_exists dirs ((p, t) # fs) (parent q)"
  proof -
    fix q u assume "(q, u) \<in> set ws"
    then have "dir_exists dirs fs (parent q)" using Cons.prems [of q u] by simp
    from dir_exists_mono [OF this subset_refl, of "[(p, t)]"] show "dir_exists dirs ((p, t) # fs) (parent q)"
      by simp
  qed
  from Cons.IH [of "(p, t) # fs", OF 2] 1 w show ?case by (simp add: write_text_def)
qed

lemma write_all_last_fails:
  assumes "\<And>q u. (q, u) \<in> set ws \<Longrightarrow> dir_exists dirs fs (parent q)"
    and "\<not> dir_exists dirs (rev ws @ fs) (parent p)"
  shows "write_all dirs (ws @ [(p, t)]) fs = (Inl (FileNotFoundError p), rev ws @ fs)"
  using assms
proof (induction ws arbitrary: fs)
  case Nil
  then show ?case by (simp add: write_text_def)
next
  case (Cons w ws)
  obtain q u where w: "w = (q, u)" by (cases w)
  have 1: "dir_exists dirs fs (parent q)" using Cons.prems(1) [of q u] w by simp
  have 2: "\<And>q' u'. (q', u') \<in> set ws \<Longrightarrow> dir_exists dirs ((q, u) # fs) (parent q')"
  proof -
    fix q' u' assume "(q', u') \<in> set ws"
    then have "dir_exists dirs fs (parent q')" using Cons.prems(1) [of q' u'] by simp
    from dir_exists_mono [OF this subset_refl, of "[(q, u)]"]
    show "dir_exists dirs ((q, u) # fs) (parent q')" by simp
  qed
  have 3: "\<not> dir_exists dirs (rev ws @ (q, u) # fs) (parent p)"
    using Cons.prems(2) w by simp
  from Cons.IH [of "(q, u) # fs", OF 2 3] 1 w show ?case by (simp add: write_text_def)
qed

lemma rules_dir_parents:
  "parent (main_path repo_root) = rules_dir repo_root"
  "parent (resolve_path repo_root) = rules_dir repo_root"
  "parent (custom_path repo_root) = rules_dir repo_root"
  by (simp_all add: parent_def main_path_def resolve_path_def custom_path_def butlast_append)

lemma reports_not_below_rules:
  "parent (upstream_missing_path repo_root) \<notin> set (prefixes (rules_dir repo_root))"
  "\<not> prefix (parent (upstream_missing_path repo_root)) (main_path repo_root)"
  "\<not> prefix (parent (upstream_missing_path repo_root)) (resolve_path repo_root)"
  "\<not> prefix (parent (upstream_missing_path repo_root)) (custom_path repo_root)"
  by (simp_all add: parent_def upstream_missing_path_def rules_dir_def main_path_def
        resolve_path_def custom_path_def butlast_append in_set_prefixes)

lemma load_core_missing:
  "\<exists>name\<in>set names. map_of fs (core_source_path upstream_root name) = None \<Longrightarrow>
   \<exists>name\<in>set names. map_of fs (core_source_path upstream_root name) = None \<and>
      load_core fs upstream_root names acc =
        Inl (SystemExit (''Missing upstream list: '' @ path_str (core_source_path upstream_root name)))"
proof (induction names arbitrary: acc)
  case Nil
  then show ?case by simp
next
  case (Cons n ns)
  show ?case
  proof (cases "map_of fs (core_source_path upstream_root n)")
    case None
    then show ?thesis by (auto simp: Let_def)
  next
    case (Some body)
    with Cons.prems
    have "\<exists>name\<in>set ns. map_of fs (core_source_path upstream_root name) = None" by auto
    from Cons.IH [OF this, of "acc \<union> set (parse_rules body)"] Some
    show ?thesis by (auto simp: Let_def)
  qed
qed

text \<open>
  Claim C9. If one of the nine core source lists is missing from the upstream checkout,
  the run ends with \<open>SystemExit\<close> and a message that names the path of a missing list,
  and the file system is the one the run started with: no merged list, resolve list,
  custom list or missing report has been written.
\<close>

theorem missing_core_source_aborts:
  assumes "\<exists>name\<in>set CORE_SOURCES. \<not> path_exists fs (core_source_path upstream_root name)"
  shows "\<exists>name\<in>set CORE_SOURCES.
           \<not> path_exists fs (core_source_path upstream_root name)
         \<and> sync_main iteration refresh_custom updated repo_root upstream_root dirs fs =
             (Inl (SystemExit (''Missing upstream list: ''
                     @ path_str (core_source_path upstream_root name))), fs)"
proof -
  from assms
  have "\<exists>name\<in>set CORE_SOURCES. map_of fs (core_source_path upstream_root name) = None"
    by (simp add: path_exists_def)
  from load_core_missing [OF this, of "{}"] obtain name where
    n: "name \<in> set CORE_SOURCES" "map_of fs (core_source_path upstream_root name) = None"
       "load_core fs upstream_root CORE_SOURCES {} =
          Inl (SystemExit (''Missing upstream list: '' @ path_str (core_source_path upstream_root name)))"
    by blast
  from n(3) have "sync_main iteration refresh_custom updated repo_root upstream_root dirs fs =
             (Inl (SystemExit (''Missing upstream list: ''
                     @ path_str (core_source_path upstream_root name))), fs)"
    by (simp add: sync_main_def sync_compute_def Let_def)
  with n(1,2) show ?thesis by (auto simp: path_exists_def)
qed

lemma extra_loop_result:
  "extra_loop known raws (extra, missing) =
     (extra \<union> {l \<in> set (rule_lines raws). l \<in> known},
      missing @ filter (\<lambda>l. l \<notin> known) (rule_lines raws))"
  by (induction raws arbitrary: extra missing) (auto simp: Let_def)

lemma fold_union:
  "fold (\<lambda>p acc. acc \<union> g p) ps A = A \<union> (\<Union>p\<in>set ps. g p)"
  by (induction ps arbitrary: A) auto

lemma core_path_in_rglob:
  assumes "map_of fs (core_source_path upstream_root name) = Some text"
  shows "core_source_path upstream_root name \<in> set (rglob_list fs (upstream_root @ [''rule'', ''Surge'']))"
proof -
  let ?p = "core_source_path upstream_root name"
  let ?b = "upstream_root @ [''rule'', ''Surge'']"
  from assms have "(?p, text) \<in> set fs" by (rule map_of_SomeD)
  then have 1: "?p \<in> set (map fst fs)" by force
  have p: "?p = ?b @ [name, name @ ''.list'']" by (simp add: core_source_path_def)
  have 2: "prefix ?b ?p" unfolding p by (rule prefixI) simp
  have 3: "?p \<noteq> ?b" unfolding p by simp
  have "last ?p = name @ ''.list''" by (simp add: core_source_path_def)
  then have 4: "suffix ''.list'' (last ?p)" by (simp add: suffix_def)
  show ?thesis using 1 2 3 4 by (simp add: rglob_list_def)
qed

lemma core_lines_upstream:
  assumes "map_of fs (core_source_path upstream_root name) = Some text"
  shows "set (parse_rules text) \<subseteq> load_upstream_lines fs upstream_root"
proof -
  have "load_upstream_lines fs upstream_root =
     (\<Union>p\<in>set (rglob_list fs (upstream_root @ [''rule'', ''Surge''])).
        set (parse_rules (case map_of fs p of None \<Rightarrow> [] | Some text \<Rightarrow> text)))"
    unfolding load_upstream_lines_def by (simp add: fold_union)
  with core_path_in_rglob [OF assms] assms show ?thesis by force
qed

lemma load_core_subset:
  "load_core fs upstream_root names acc = Inr core \<Longrightarrow>
     core \<subseteq> acc \<union> load_upstream_lines fs upstream_root"
proof (induction names arbitrary: acc)
  case Nil
  then show ?case by auto
next
  case (Cons n ns)
  show ?case
  proof (cases "map_of fs (core_source_path upstream_root n)")
    case None
    with Cons.prems show ?thesis by (simp add: Let_def)
  next
    case (Some body)
    with Cons.prems
    have "load_core fs upstream_root ns (acc \<union> set (parse_rules body)) = Inr core"
      by (simp add: Let_def)
    from Cons.IH [OF this] core_lines_upstream [OF Some] show ?thesis by auto
  qed
qed

lemma sync_compute_Inr:
  assumes "sync_compute iteration repo_root upstream_root fs = Inr l"
  shows "load_core fs upstream_root CORE_SOURCES {} = Inr (core_rules l)"
    and "upstream_lines l = load_upstream_lines fs upstream_root"
    and "(upstream_extra_rules l, missing_extra l) =
           (case map_of fs (upstream_extra_path repo_root) of
              None \<Rightarrow> ({}, [])
            | Some text \<Rightarrow> extra_loop (load_upstream_lines fs upstream_root) (splitlines text) ({}, []))"
    and "merged_rules l = core_rules l \<union> upstream_extra_rules l \<union> custom_rules l"
  using assms
  by (auto simp: sync_compute_def Let_def split: sum.splits prod.splits)

lemma sync_main_as_writes:
  assumes "sync_compute iteration repo_root upstream_root fs = Inr l"
  shows "\<exists>ws. sync_main iteration refresh_custom updated repo_root upstream_root dirs fs =
           write_all (mkdir_parents (rules_dir repo_root) dirs)
             (ws @ [(upstream_missing_path repo_root,
                     if missing_extra l \<noteq> []
                     then join_with ''\<newline>'' (sorted_rules (missing_extra l)) @ ''\<newline>''
                     else [])]) fs
         \<and> fst ` set ws \<subseteq> {main_path repo_root, resolve_path repo_root, custom_path repo_root}"
proof (cases refresh_custom)
  case True
  show ?thesis
    apply (rule exI [of _ "[(main_path repo_root,
              artifact_text (sync_build_header ''OverseasAI'' updated
                 (Counter (map first_field (rules_sorted l)))) (rules_sorted l)),
            (resolve_path repo_root,
              artifact_text (sync_build_header ''OverseasAI_Resolve'' updated
                 (Counter (map first_field (resolve_rules l)))) (resolve_rules l)),
            (custom_path repo_root,
              join_with ''\<newline>''
                (sorted_rules (iteration
                   {r \<in> merged_rules l. r \<notin> core_rules l \<and> r \<notin> upstream_extra_rules l}))
              @ ''\<newline>'')]"])
    using assms True by (simp add: sync_main_def Let_def)
next
  case False
  show ?thesis
    apply (rule exI [of _ "[(main_path repo_root,
              artifact_text (sync_build_header ''OverseasAI'' updated
                 (Counter (map first_field (rules_sorted l)))) (rules_sorted l)),
            (resolve_path repo_root,
              artifact_text (sync_build_header ''OverseasAI_Resolve'' updated
                 (Counter (map first_field (resolve_rules l)))) (resolve_rules l))]"])
    using assms False by (simp add: sync_main_def Let_def)
qed

lemma missing_report_written:
  assumes "sync_compute iteration repo_root upstream_root fs = Inr l"
    and "dir_exists dirs fs (parent (upstream_missing_path repo_root))"
  shows "fst (sync_main iteration refresh_custom updated repo_root upstream_root dirs fs) = Inr ()"
    and "map_of (snd (sync_main iteration refresh_custom updated repo_root upstream_root dirs fs))
           (upstream_missing_path repo_root) =
         Some (if missing_extra l \<noteq> []
               then join_with ''\<newline>'' (sorted_rules (missing_extra l)) @ ''\<newline>''
               else [])"
proof -
  let ?d = "mkdir_parents (rules_dir repo_root) dirs"
  let ?t = "if missing_extra l \<noteq> []
            then join_with ''\<newline>'' (sorted_rules (missing_extra l)) @ ''\<newline>'' else []"
  from sync_main_as_writes [OF assms(1), of refresh_custom updated dirs] obtain ws where
    sm: "sync_main iteration refresh_custom updated repo_root upstream_root dirs fs =
           write_all ?d (ws @ [(upstream_missing_path repo_root, ?t)]) fs"
    and ws: "fst ` set ws \<subseteq> {main_path repo_root, resolve_path repo_root, custom_path repo_root}"
    by blast
  have r: "dir_exists ?d fs (parent (upstream_missing_path repo_root))"
    using dir_exists_mono [OF assms(2), of ?d "[]"] by (simp add: mkdir_parents_def)
  have "\<And>p t. (p, t) \<in> set (ws @ [(upstream_missing_path repo_root, ?t)]) \<Longrightarrow>
          dir_exists ?d fs (parent p)"
  proof -
    fix p t assume "(p, t) \<in> set (ws @ [(upstream_missing_path repo_root, ?t)])"
    then have "p = upstream_missing_path repo_root \<or> p \<in> fst ` set ws" by force
    with ws have "p = upstream_missing_path repo_root \<or> parent p = rules_dir repo_root"
      by (auto simp: rules_dir_parents)
    with r show "dir_exists ?d fs (parent p)" by (auto simp: dir_exists_mkdir)
  qed
  from write_all_ok [OF this]
  have "sync_main iteration refresh_custom updated repo_root upstream_root dirs fs =
          (Inr (), rev (ws @ [(upstream_missing_path repo_root, ?t)]) @ fs)"
    by (simp only: sm)
  then show
    "fst (sync_main iteration refresh_custom updated repo_root upstream_root dirs fs) = Inr ()"
    "map_of (snd (sync_main iteration refresh_custom updated repo_root upstream_root dirs fs))
           (upstream_missing_path repo_root) = Some ?t"
    by simp_all
qed

text \<open>
  The script does not make the directory of the missing report. When it does not exist,
  the last write raises \<open>FileNotFoundError\<close>, after the main and the resolve list (and
  the custom list, if asked for) have been written.
\<close>

lemma missing_report_needs_directory:
  assumes "sync_compute iteration repo_root upstream_root fs = Inr l"
    and "\<not> dir_exists dirs fs (parent (upstream_missing_path repo_root))"
  shows "fst (sync_main iteration refresh_custom updated repo_root upstream_root dirs fs) =
           Inl (FileNotFoundError (upstream_missing_path repo_root))"
proof -
  let ?d = "mkdir_parents (rules_dir repo_root) dirs"
  let ?t = "if missing_extra l \<noteq> []
            then join_with ''\<newline>'' (sorted_rules (missing_extra l)) @ ''\<newline>'' else []"
  from sync_main_as_writes [OF assms(1), of refresh_custom updated dirs] obtain ws where
    sm: "sync_main iteration refresh_custom updated repo_root upstream_root dirs fs =
           write_all ?d (ws @ [(upstream_missing_path repo_root, ?t)]) fs"
    and ws: "fst ` set ws \<subseteq> {main_path repo_root, resolve_path repo_root, custom_path repo_root}"
    by blast
  have 1: "\<And>q u. (q, u) \<in> set ws \<Longrightarrow> dir_exists ?d fs (parent q)"
  proof -
    fix q u assume "(q, u) \<in> set ws"
    then have "q \<in> fst ` set ws" by force
    with ws have "parent q = rules_dir repo_root" by (auto simp: rules_dir_parents)
    then show "dir_exists ?d fs (parent q)" by (simp add: dir_exists_mkdir)
  qed
  have n: "\<And>q u. (q, u) \<in> set ws \<Longrightarrow> \<not> prefix (parent (upstream_missing_path repo_root)) q"
  proof -
    fix q u assume "(q, u) \<in> set ws"
    then have "q \<in> fst ` set ws" by force
    with ws reports_not_below_rules [of repo_root]
    show "\<not> prefix (parent (upstream_missing_path repo_root)) q" by auto
  qed
  have 2: "\<not> dir_exists ?d (rev ws @ fs) (parent (upstream_missing_path repo_root))"
    using assms(2) reports_not_below_rules(1) [of repo_root] n
    by (auto simp: dir_exists_def mkdir_parents_def list_ex_iff)
  from write_all_last_fails [OF 1 2] show ?thesis by (simp add: sm)
qed

text \<open>
  Claim C4, as amended. A line of the extra file that is not among the upstream lines
  is not taken into \<open>upstream_extra_rules\<close>, is in the merged set exactly when the
  custom list holds the same line (every core line is an upstream line), and is in
  \<open>missing_extra\<close>; when the directory of the missing report exists, the run ends without
  error and the report it has written holds the sorted lines of \<open>missing_extra\<close>, this
  line among them.
\<close>

theorem unverified_extra_reported:
  assumes "sync_compute iteration repo_root upstream_root fs = Inr l"
    and "map_of fs (upstream_extra_path repo_root) = Some text"
    and "line \<in> set (parse_rules text)"
    and "line \<notin> upstream_lines l"
  shows "line \<notin> upstream_extra_rules l
     \<and> (line \<in> merged_rules l \<longleftrightarrow> line \<in> custom_rules l)
     \<and> line \<in> set (missing_extra l)
     \<and> line \<in> set (sorted_rules (missing_extra l))
     \<and> (dir_exists dirs fs (parent (upstream_missing_path repo_root)) \<longrightarrow>
          fst (sync_main iteration refresh_custom updated repo_root upstream_root dirs fs) = Inr ()
        \<and> map_of (snd (sync_main iteration refresh_custom updated repo_root upstream_root dirs fs))
             (upstream_missing_path repo_root) =
           Some (join_with ''\<newline>'' (sorted_rules (missing_extra l)) @ ''\<newline>''))"
proof -
  note c = sync_compute_Inr [OF assms(1)]
  let ?U = "load_upstream_lines fs upstream_root"
  from c(3) assms(2)
  have e: "upstream_extra_rules l = {x \<in> set (parse_rules text). x \<in> ?U}"
    and m: "missing_extra l = filter (\<lambda>x. x \<notin> ?U) (parse_rules text)"
    by (simp_all add: extra_loop_result parse_rules_def)
  from assms(4) c(2) have nu: "line \<notin> ?U" by simp
  have 1: "line \<notin> upstream_extra_rules l" using e nu by simp
  have 3: "line \<in> set (missing_extra l)" using m nu assms(3) by simp
  from load_core_subset [OF c(1)] nu have "line \<notin> core_rules l" by auto
  with c(4) 1 have 2: "line \<in> merged_rules l \<longleftrightarrow> line \<in> custom_rules l" by simp
  have 4: "line \<in> set (sorted_rules (missing_extra l))" using 3 by (simp add: sorted_rules_def)
  from 3 have ne: "missing_extra l \<noteq> []" by auto
  have 5: "dir_exists dirs fs (parent (upstream_missing_path repo_root)) \<longrightarrow>
          fst (sync_main iteration refresh_custom updated repo_root upstream_root dirs fs) = Inr ()
        \<and> map_of (snd (sync_main iteration refresh_custom updated repo_root upstream_root dirs fs))
             (upstream_missing_path repo_root) =
           Some (join_with ''\<newline>'' (sorted_rules (missing_extra l)) @ ''\<newline>'')"
    using missing_report_written [OF assms(1), of dirs refresh_custom updated] ne by simp
  show ?thesis using 1 2 3 4 5 by blast
qed

lemma example_compute:
  "sync_compute sorted_list_of_set [''repo''] [''upstream''] example_fs = Inr example_locals"
proof -
  have "\<not> isl (sync_compute sorted_list_of_set [''repo''] [''upstream''] example_fs)"
    by code_simp
  then show ?thesis by (simp add: example_locals_def)
qed

lemma example_extra_file:
  "map_of example_fs (upstream_extra_path [''repo'']) = Some example_extra_text"
  by code_simp

lemma example_abort:
  "sync_main sorted_list_of_set True ''2024-01-01 00:00:00'' [''repo''] [''upstream''] {}
     example_fs_no_claude
     = (Inl (SystemExit ''Missing upstream list: upstream/rule/Surge/Claude/Claude.list''),
        example_fs_no_claude)"
  by code_simp

theorem missing_core_source_aborts_witness:
  "''Claude'' \<in> set CORE_SOURCES
   \<and> \<not> path_exists example_fs_no_claude (core_source_path [''upstream''] ''Claude'')
   \<and> isl (fst (sync_main sorted_list_of_set True ''2024-01-01 00:00:00'' [''repo''] [''upstream'']
                  {} example_fs_no_claude))
   \<and> snd (sync_main sorted_list_of_set True ''2024-01-01 00:00:00'' [''repo''] [''upstream'']
             {} example_fs_no_claude) = example_fs_no_claude
   \<and> sync_main sorted_list_of_set True ''2024-01-01 00:00:00'' [''repo''] [''upstream'']
        {} example_fs_no_claude
        = (Inl (SystemExit ''Missing upstream list: upstream/rule/Surge/Claude/Claude.list''),
           example_fs_no_claude)"
proof -
  have c: "''Claude'' \<in> set CORE_SOURCES" by (simp add: CORE_SOURCES_def)
  have m: "\<not> path_exists example_fs_no_claude (core_source_path [''upstream''] ''Claude'')"
    by code_simp
  from c m have "\<exists>name\<in>set CORE_SOURCES.
      \<not> path_exists example_fs_no_claude (core_source_path [''upstream''] name)" by blast
  from missing_core_source_aborts
         [OF this, of sorted_list_of_set True "''2024-01-01 00:00:00''" "[''repo'']" "{}"]
  obtain name where
    "sync_main sorted_list_of_set True ''2024-01-01 00:00:00'' [''repo''] [''upstream'']
       {} example_fs_no_claude =
         (Inl (SystemExit (''Missing upstream list: ''
                 @ path_str (core_source_path [''upstream''] name))),
          example_fs_no_claude)"
    by blast
  then have r:
    "isl (fst (sync_main sorted_list_of_set True ''2024-01-01 00:00:00'' [''repo''] [''upstream'']
                  {} example_fs_no_claude))"
    "snd (sync_main sorted_list_of_set True ''2024-01-01 00:00:00'' [''repo''] [''upstream'']
             {} example_fs_no_claude) = example_fs_no_claude"
    by simp_all
  show ?thesis using c m r example_abort by blast
qed

text \<open>
  Claim C4 as stated fails: \<open>DOMAIN-SUFFIX,custom.example\<close> is a line of the extra file
  and not an upstream line, the custom list holds it too, and it is in the merged set
  and in the sorted rules of the main artifact.
\<close>

theorem unverified_extra_counterexample:
  "sync_compute sorted_list_of_set [''repo''] [''upstream''] example_fs = Inr example_locals
   \<and> ''DOMAIN-SUFFIX,custom.example'' \<in> set (parse_rules example_extra_text)
   \<and> ''DOMAIN-SUFFIX,custom.example'' \<notin> upstream_lines example_locals
   \<and> ''DOMAIN-SUFFIX,custom.example'' \<in> merged_rules example_locals
   \<and> ''DOMAIN-SUFFIX,custom.example'' \<in> set (rules_sorted example_locals)"
proof -
  have 1: "''DOMAIN-SUFFIX,custom.example'' \<in> set (parse_rules example_extra_text)"
    by code_simp
  have 2: "''DOMAIN-SUFFIX,custom.example'' \<notin> upstream_lines example_locals"
    by code_simp
  have 3: "''DOMAIN-SUFFIX,custom.example'' \<in> merged_rules example_locals"
    by code_simp
  have 4: "''DOMAIN-SUFFIX,custom.example'' \<in> set (rules_sorted example_locals)"
    by code_simp
  show ?thesis using example_compute 1 2 3 4 by blast
qed

lemma example_missing_sorted:
  "sorted_rules (missing_extra example_locals)
     = [''DOMAIN-SUFFIX,custom.example'', ''DOMAIN-SUFFIX,missing.example'']"
  by code_simp

theorem unverified_extra_reported_witness:
  "sync_compute sorted_list_of_set [''repo''] [''upstream''] example_fs = Inr example_locals
   \<and> map_of example_fs (upstream_extra_path [''repo'']) = Some example_extra_text
   \<and> ''DOMAIN-SUFFIX,missing.example'' \<in> set (parse_rules example_extra_text)
   \<and> ''DOMAIN-SUFFIX,missing.example'' \<notin> upstream_lines example_locals
   \<and> dir_exists {[''repo'', ''reports'']} example_fs (parent (upstream_missing_path [''repo'']))
   \<and> ''DOMAIN-SUFFIX,missing.example'' \<notin> merged_rules example_locals
   \<and> ''DOMAIN-SUFFIX,missing.example'' \<in> set (missing_extra example_locals)
   \<and> fst (sync_main sorted_list_of_set False ''2024-01-01 00:00:00'' [''repo''] [''upstream'']
            {[''repo'', ''reports'']} example_fs) = Inr ()
   \<and> map_of (snd (sync_main sorted_list_of_set False ''2024-01-01 00:00:00'' [''repo'']
                    [''upstream''] {[''repo'', ''reports'']} example_fs))
        (upstream_missing_path [''repo''])
       = Some ''DOMAIN-SUFFIX,custom.example\<newline>DOMAIN-SUFFIX,missing.example\<newline>''"
proof -
  have 1: "''DOMAIN-SUFFIX,missing.example'' \<in> set (parse_rules example_extra_text)"
    by code_simp
  have 2: "''DOMAIN-SUFFIX,missing.example'' \<notin> upstream_lines example_locals"
    by code_simp
  have 3: "''DOMAIN-SUFFIX,missing.example'' \<notin> custom_rules example_locals"
    by code_simp
  have d: "dir_exists {[''repo'', ''reports'']} example_fs (parent (upstream_missing_path [''repo'']))"
    by code_simp
  note t = unverified_extra_reported [OF example_compute example_extra_file 1 2,
      of "{[''repo'', ''reports'']}" False "''2024-01-01 00:00:00''"]
  from t 3 have a:
    "''DOMAIN-SUFFIX,missing.example'' \<notin> merged_rules example_locals"
    "''DOMAIN-SUFFIX,missing.example'' \<in> set (missing_extra example_locals)"
    by simp_all
  from t d have b:
    "fst (sync_main sorted_list_of_set False ''2024-01-01 00:00:00'' [''repo''] [''upstream'']
            {[''repo'', ''reports'']} example_fs) = Inr ()"
    "map_of (snd (sync_main sorted_list_of_set False ''2024-01-01 00:00:00'' [''repo'']
                    [''upstream''] {[''repo'', ''reports'']} example_fs))
        (upstream_missing_path [''repo''])
       = Some ''DOMAIN-SUFFIX,custom.example\<newline>DOMAIN-SUFFIX,missing.example\<newline>''"
    by (simp_all add: example_missing_sorted)
  show ?thesis using example_compute example_extra_file 1 2 d a b by blast
qed

text \<open>
  The same run without the directory \<open>repo/reports\<close>: the main and the resolve list
  are written, and the write of the missing report raises.
\<close>

lemma example_report_directory_missing:
  "fst (sync_main sorted_list_of_set False ''2024-01-01 00:00:00'' [''repo''] [''upstream'']
          {} example_fs)
     = Inl (FileNotFoundError [''repo'', ''reports'', ''upstream_missing.txt''])
   \<and> map fst (snd (sync_main sorted_list_of_set False ''2024-01-01 00:00:00'' [''repo'']
                     [''upstream''] {} example_fs))
     = [resolve_path [''repo''], main_path [''repo'']] @ map fst example_fs"
  by code_simp

text \<open>
  Claim C6, on the rule \<open>DOMAIN-SUFFIX,no-resolve.example.com\<close>, which has no modifier.
  Line 139 removes the text \<open>,no-resolve\<close> wherever it stands in the line, so the resolve
  view holds \<open>DOMAIN-SUFFIX.example.com\<close>: the value is gone and the type is changed,
  where taking the modifier \<open>no-resolve\<close> out of the record leaves the rule as it is.
\<close>

theorem resolve_view_damages_value:
  "resolve_set [''DOMAIN-SUFFIX,no-resolve.example.com''] = {''DOMAIN-SUFFIX.example.com''}
   \<and> spec_resolve_set {''DOMAIN-SUFFIX,no-resolve.example.com''}
        = {''DOMAIN-SUFFIX,no-resolve.example.com''}
   \<and> ''DOMAIN-SUFFIX,no-resolve.example.com'' \<in> merged_rules example_locals
   \<and> resolve_rules example_locals =
        [''DOMAIN-SUFFIX,anthropic.com'', ''DOMAIN-SUFFIX,claude.ai'',
         ''DOMAIN-SUFFIX,custom.example'', ''DOMAIN-SUFFIX,extra.example'',
         ''DOMAIN-SUFFIX,openai.com'', ''IP-CIDR,1.2.3.0/24'', ''DOMAIN-SUFFIX.example.com'']"
proof -
  have 1: "resolve_set [''DOMAIN-SUFFIX,no-resolve.example.com''] = {''DOMAIN-SUFFIX.example.com''}"
    by code_simp
  have 2: "spec_resolve_set {''DOMAIN-SUFFIX,no-resolve.example.com''}
        = {''DOMAIN-SUFFIX,no-resolve.example.com''}"
    by code_simp
  have 3: "''DOMAIN-SUFFIX,no-resolve.example.com'' \<in> merged_rules example_locals"
    by code_simp
  have 4: "resolve_rules example_locals =
        [''DOMAIN-SUFFIX,anthropic.com'', ''DOMAIN-SUFFIX,claude.ai'',
         ''DOMAIN-SUFFIX,custom.example'', ''DOMAIN-SUFFIX,extra.example'',
         ''DOMAIN-SUFFIX,openai.com'', ''IP-CIDR,1.2.3.0/24'', ''DOMAIN-SUFFIX.example.com'']"
    by code_simp
  show ?thesis using 1 2 3 4 by blast
qed

end
